theory Spec2Isabelle
  imports Complex_Main "HOL-Library.Word" "HOL-Library.Sublist"
begin

unbundle bit_operations_syntax

section \<open>JavaScript numbers\<close>

text \<open>
  The samples handled by \<^verbatim>\<open>AudioManager\<close> are JavaScript numbers read from a
  \<^verbatim>\<open>Float32Array\<close>. A number is a finite value, \<^verbatim>\<open>NaN\<close> or one of the two
  infinities. Finite values are modelled as reals: a Float32 sample widened to a double
  and multiplied by \<^verbatim>\<open>0x8000\<close> or \<^verbatim>\<open>0x7fff\<close> needs at most 39 significant bits, so
  the products computed by \<^verbatim>\<open>floatTo16BitPCM\<close> are exact in double precision.
  Negative zero behaves as zero in every operation used here.
\<close>

datatype js_number = Finite real | NaN | PosInfinity | NegInfinity

text \<open>\<^verbatim>\<open>Math.min(a, b)\<close> and \<^verbatim>\<open>Math.max(a, b)\<close>: \<^verbatim>\<open>NaN\<close> if either argument is.\<close>

fun Math_min :: "js_number \<Rightarrow> js_number \<Rightarrow> js_number" where
  "Math_min NaN b = NaN"
| "Math_min a NaN = NaN"
| "Math_min NegInfinity b = NegInfinity"
| "Math_min a NegInfinity = NegInfinity"
| "Math_min PosInfinity b = b"
| "Math_min a PosInfinity = a"
| "Math_min (Finite a) (Finite b) = Finite (min a b)"

fun Math_max :: "js_number \<Rightarrow> js_number \<Rightarrow> js_number" where
  "Math_max NaN b = NaN"
| "Math_max a NaN = NaN"
| "Math_max PosInfinity b = PosInfinity"
| "Math_max a PosInfinity = PosInfinity"
| "Math_max NegInfinity b = b"
| "Math_max a NegInfinity = a"
| "Math_max (Finite a) (Finite b) = Finite (max a b)"

text \<open>\<^verbatim>\<open>a < b\<close>: false whenever an argument is \<^verbatim>\<open>NaN\<close>.\<close>

fun js_less :: "js_number \<Rightarrow> js_number \<Rightarrow> bool" where
  "js_less NaN b = False"
| "js_less a NaN = False"
| "js_less (Finite a) (Finite b) = (a < b)"
| "js_less a PosInfinity = (a \<noteq> PosInfinity)"
| "js_less NegInfinity b = (b \<noteq> NegInfinity)"
| "js_less a b = False"

text \<open>\<^verbatim>\<open>a * b\<close>: an infinity times zero is \<^verbatim>\<open>NaN\<close>.\<close>

fun js_sign :: "js_number \<Rightarrow> real" where
  "js_sign (Finite a) = sgn a"
| "js_sign PosInfinity = 1"
| "js_sign NegInfinity = -1"
| "js_sign NaN = 0"

fun js_times :: "js_number \<Rightarrow> js_number \<Rightarrow> js_number" where
  "js_times NaN b = NaN"
| "js_times a NaN = NaN"
| "js_times (Finite a) (Finite b) = Finite (a * b)"
| "js_times a b =
     (if js_sign a * js_sign b = 0 then NaN
      else if 0 < js_sign a * js_sign b then PosInfinity else NegInfinity)"

text \<open>Truncation towards zero, the first step of every integer conversion.\<close>

definition js_truncate :: "real \<Rightarrow> int" where
  "js_truncate r = (if r < 0 then \<lceil>r\<rceil> else \<lfloor>r\<rfloor>)"

text \<open>
  Storing a number into an \<^verbatim>\<open>Int16Array\<close> applies \<^verbatim>\<open>ToInt16\<close>: \<^verbatim>\<open>NaN\<close> and the
  infinities become 0, a finite value is truncated and reduced modulo \<open>2 ^ 16\<close>.
\<close>

fun ToInt16 :: "js_number \<Rightarrow> 16 word" where
  "ToInt16 (Finite r) = word_of_int (js_truncate r)"
| "ToInt16 a = 0"

section \<open>PCM codec of \<^verbatim>\<open>AudioManager\<close>\<close>

text \<open>
  \<^verbatim>\<open>const s = Math.max(-1, Math.min(1, input[i]));\<close>
\<close>

definition clamp_sample :: "js_number \<Rightarrow> js_number" where
  "clamp_sample x = Math_max (Finite (- 1)) (Math_min (Finite 1) x)"

text \<open>
  \<^verbatim>\<open>output[i] = s < 0 ? s * 0x8000 : s * 0x7fff;\<close>
\<close>

definition pcm16_of_sample :: "js_number \<Rightarrow> 16 word" where
  "pcm16_of_sample x =
     (let s = clamp_sample x
      in ToInt16 (if js_less s (Finite 0) then js_times s (Finite 32768)
                  else js_times s (Finite 32767)))"

text \<open>
  \<^verbatim>\<open>floatTo16BitPCM(input)\<close>: the loop writes \<^verbatim>\<open>output[i]\<close> from \<^verbatim>\<open>input[i]\<close> for
  every index in turn, which is recursion over the input.
\<close>

fun floatTo16BitPCM :: "js_number list \<Rightarrow> 16 word list" where
  "floatTo16BitPCM [] = []"
| "floatTo16BitPCM (x # input) = pcm16_of_sample x # floatTo16BitPCM input"


text \<open>
  Errors of the host raised as exceptions inside the modelled functions.
\<close>

datatype js_error = RangeError | InvalidCharacterError

text \<open>
  The binary buffers that cross the codec: an \<^verbatim>\<open>Int16Array\<close> of samples or a
  \<^verbatim>\<open>Uint8Array\<close> of bytes (a view on the whole of its own buffer, as
  \<^verbatim>\<open>base64ToUint8Array\<close> builds it).
\<close>

datatype typed_array = Int16Array "16 word list" | Uint8Array "8 word list"

text \<open>
  \<^verbatim>\<open>new Int16Array(input.buffer)\<close>: the bytes read as 16-bit samples in the platform's
  byte order (little-endian on every platform that runs a browser); a buffer of odd
  byte length raises \<^verbatim>\<open>RangeError\<close>.
\<close>

fun int16_view :: "8 word list \<Rightarrow> js_error + 16 word list" where
  "int16_view [] = Inr []"
| "int16_view [b] = Inl RangeError"
| "int16_view (lo # hi # bytes) =
     (case int16_view bytes of
        Inl e \<Rightarrow> Inl e
      | Inr samples \<Rightarrow> Inr ((push_bit 8 (ucast hi) OR ucast lo) # samples))"

text \<open>
  \<^verbatim>\<open>float32Data[i] = int16Data[i] / (int16Data[i] < 0 ? 0x8000 : 0x7fff);\<close>
  The quotient is stored into a \<^verbatim>\<open>Float32Array\<close>, which rounds it to single
  precision; \<open>fround\<close> is that rounding, a parameter of the model.
\<close>

definition float_of_pcm16 :: "(real \<Rightarrow> real) \<Rightarrow> 16 word \<Rightarrow> real" where
  "float_of_pcm16 fround v =
     fround (real_of_int (sint v) / (if sint v < 0 then 32768 else 32767))"

fun int16ToFloat32_loop :: "(real \<Rightarrow> real) \<Rightarrow> 16 word list \<Rightarrow> real list" where
  "int16ToFloat32_loop fround [] = []"
| "int16ToFloat32_loop fround (v # int16Data) =
     float_of_pcm16 fround v # int16ToFloat32_loop fround int16Data"

fun int16ToFloat32 :: "(real \<Rightarrow> real) \<Rightarrow> typed_array \<Rightarrow> js_error + real list" where
  "int16ToFloat32 fround (Uint8Array bytes) =
     (case int16_view bytes of
        Inl e \<Rightarrow> Inl e
      | Inr int16Data \<Rightarrow> Inr (int16ToFloat32_loop fround int16Data))"
| "int16ToFloat32 fround (Int16Array int16Data) =
     Inr (int16ToFloat32_loop fround int16Data)"

section \<open>Transport encoding\<close>

text \<open>
  Modelled from the spec: \<^verbatim>\<open>window.btoa\<close> and \<^verbatim>\<open>window.atob\<close> are functions of the
  browser, not of this repository. The spec calls the encoding the "standard
  binary-to-text transport encoding"; they are modelled as Base64 with the alphabet and
  padding of RFC 4648, \<^verbatim>\<open>atob\<close> decoding forgivingly as browsers do (ASCII whitespace
  is dropped, padding is optional, anything else raises \<^verbatim>\<open>InvalidCharacterError\<close>).
  A binary string, whose code units are all below 256, is a \<^typ>\<open>string\<close>.
\<close>

definition b64_alphabet :: string where
  "b64_alphabet = ''ABCDEFGHIJKLMNOPQRSTUVWXYZabcdefghijklmnopqrstuvwxyz0123456789+/''"

definition b64_char :: "nat \<Rightarrow> char" where
  "b64_char v = b64_alphabet ! v"

definition b64_value :: "char \<Rightarrow> nat option" where
  "b64_value c = map_of (zip b64_alphabet [0..<64]) c"

fun b64_encode :: "nat list \<Rightarrow> string" where
  "b64_encode [] = []"
| "b64_encode [a] =
     [b64_char (a div 4), b64_char (a mod 4 * 16), CHR ''='', CHR ''='']"
| "b64_encode [a, b] =
     [b64_char (a div 4), b64_char (a mod 4 * 16 + b div 16), b64_char (b mod 16 * 4),
      CHR ''='']"
| "b64_encode (a # b # c # bytes) =
     [b64_char (a div 4), b64_char (a mod 4 * 16 + b div 16),
      b64_char (b mod 16 * 4 + c div 64), b64_char (c mod 64)] @ b64_encode bytes"

definition btoa :: "string \<Rightarrow> string" where
  "btoa binary = b64_encode (map of_char binary)"

definition ascii_whitespace :: "char \<Rightarrow> bool" where
  "ascii_whitespace c = (c \<in> {CHR 0x09, CHR 0x0A, CHR 0x0C, CHR 0x0D, CHR 0x20})"

definition strip_b64_padding :: "string \<Rightarrow> string" where
  "strip_b64_padding d =
     (if length d mod 4 = 0 \<and> d \<noteq> [] \<and> last d = CHR ''=''
      then (if butlast d \<noteq> [] \<and> last (butlast d) = CHR ''=''
            then butlast (butlast d) else butlast d)
      else d)"

fun b64_decode :: "nat list \<Rightarrow> nat list" where
  "b64_decode (w # x # y # z # sextets) =
     [w * 4 + x div 16, x mod 16 * 16 + y div 4, y mod 4 * 64 + z] @ b64_decode sextets"
| "b64_decode [w, x, y] = [w * 4 + x div 16, x mod 16 * 16 + y div 4]"
| "b64_decode [w, x] = [w * 4 + x div 16]"
| "b64_decode sextets = []"

definition atob :: "string \<Rightarrow> js_error + string" where
  "atob data =
     (let d = strip_b64_padding (filter (\<lambda>c. \<not> ascii_whitespace c) data)
      in if length d mod 4 = 1 then Inl InvalidCharacterError
         else case those (map b64_value d) of
                None \<Rightarrow> Inl InvalidCharacterError
              | Some sextets \<Rightarrow> Inr (map char_of (b64_decode sextets)))"

text \<open>
  The sextets and the number of padding characters that \<^const>\<open>b64_encode\<close> writes,
  taken apart for the proofs.
\<close>

fun b64_sextets :: "nat list \<Rightarrow> nat list" where
  "b64_sextets [] = []"
| "b64_sextets [a] = [a div 4, a mod 4 * 16]"
| "b64_sextets [a, b] = [a div 4, a mod 4 * 16 + b div 16, b mod 16 * 4]"
| "b64_sextets (a # b # c # bytes) =
     [a div 4, a mod 4 * 16 + b div 16, b mod 16 * 4 + c div 64, c mod 64]
     @ b64_sextets bytes"

fun b64_pad :: "nat list \<Rightarrow> nat" where
  "b64_pad [] = 0"
| "b64_pad [a] = 2"
| "b64_pad [a, b] = 1"
| "b64_pad (a # b # c # bytes) = b64_pad bytes"

text \<open>
  \<^verbatim>\<open>arrayToBase64(buffer)\<close> of \<^verbatim>\<open>WebSocketManager\<close>. An \<^verbatim>\<open>Int16Array\<close> is viewed as
  its bytes, low byte first; a \<^verbatim>\<open>Uint8Array\<close> is taken as it is. The third branch,
  \<^verbatim>\<open>new Uint8Array(buffer)\<close>, is for values of neither type.
\<close>

fun int16_bytes :: "16 word list \<Rightarrow> 8 word list" where
  "int16_bytes [] = []"
| "int16_bytes (v # samples) = ucast v # ucast (drop_bit 8 v) # int16_bytes samples"

fun bytes_of :: "typed_array \<Rightarrow> 8 word list" where
  "bytes_of (Int16Array samples) = int16_bytes samples"
| "bytes_of (Uint8Array bytes) = bytes"

text \<open>
  \<^verbatim>\<open>for (let i = 0; i < len; i++) { binary += String.fromCharCode(bytes[i]); }\<close>
\<close>

fun binary_of_bytes :: "8 word list \<Rightarrow> string" where
  "binary_of_bytes [] = []"
| "binary_of_bytes (b # bytes) = char_of (unat b) # binary_of_bytes bytes"

definition arrayToBase64 :: "typed_array \<Rightarrow> string" where
  "arrayToBase64 buffer = btoa (binary_of_bytes (bytes_of buffer))"

text \<open>
  \<^verbatim>\<open>for (let i = 0; i < len; i++) { bytes[i] = binary.charCodeAt(i); }\<close>
\<close>

fun bytes_of_binary :: "string \<Rightarrow> 8 word list" where
  "bytes_of_binary [] = []"
| "bytes_of_binary (c # binary) = of_nat (of_char c) # bytes_of_binary binary"

definition base64ToUint8Array :: "string \<Rightarrow> js_error + 8 word list" where
  "base64ToUint8Array base64 =
     (case atob base64 of
        Inl e \<Rightarrow> Inl e
      | Inr binary \<Rightarrow> Inr (bytes_of_binary binary))"

section \<open>Audio capture callback\<close>

text \<open>
  \<^verbatim>\<open>Math.abs(x)\<close> and \<^verbatim>\<open>a > b\<close>.
\<close>

fun Math_abs :: "js_number \<Rightarrow> js_number" where
  "Math_abs (Finite a) = Finite \<bar>a\<bar>"
| "Math_abs NaN = NaN"
| "Math_abs a = PosInfinity"

definition js_greater :: "js_number \<Rightarrow> js_number \<Rightarrow> bool" where
  "js_greater a b = js_less b a"

text \<open>
  The part of \<^verbatim>\<open>AudioManager\<close> that the device callback reads: the recording flag
  and whether a listener is assigned to \<^verbatim>\<open>onAudioData\<close>.
\<close>

record capture =
  isRecording :: bool
  onAudioData :: bool

text \<open>
  \<^verbatim>\<open>processorNode.onaudioprocess\<close> of \<^verbatim>\<open>js/audioManager.js\<close>. The result is the
  argument \<^verbatim>\<open>onAudioData\<close> is called with, \<open>None\<close> when it is not called.
\<close>

definition onaudioprocess :: "capture \<Rightarrow> js_number list \<Rightarrow> 16 word list option" where
  "onaudioprocess this inputData =
     (if \<not> isRecording this then None
      else let pcmData = floatTo16BitPCM inputData
           in if onAudioData this then Some pcmData else None)"

text \<open>
  The same callback in the other revision of the file (\<^verbatim>\<open>unnamed/part_000\<close>):
  \<^verbatim>\<open>const hasAudio = inputData.some((sample) => Math.abs(sample) > 0.1);\<close>
  gates the conversion and the notification. A Float32 sample exceeds the double
  \<^verbatim>\<open>0.1\<close> exactly when it exceeds one tenth.
\<close>

definition hasAudio :: "js_number list \<Rightarrow> bool" where
  "hasAudio inputData =
     list_ex (\<lambda>sample. js_greater (Math_abs sample) (Finite (1 / 10))) inputData"

definition onaudioprocess_part_000 ::
  "capture \<Rightarrow> js_number list \<Rightarrow> 16 word list option" where
  "onaudioprocess_part_000 this inputData =
     (if \<not> isRecording this then None
      else if hasAudio inputData
           then (let pcmData = floatTo16BitPCM inputData
                 in if onAudioData this then Some pcmData else None)
           else None)"


section \<open>Playback queue of \<^verbatim>\<open>AudioManager\<close>\<close>

text \<open>
  \<^verbatim>\<open>playNextAudioChunk\<close> is an \<^verbatim>\<open>async\<close> function: it runs without interruption
  up to its first \<^verbatim>\<open>await\<close> (taken only when the audio context is missing or
  suspended) and resumes later, other callbacks running in between. What the host does
  with one activation is a parameter of each step: the body reaches
  \<^verbatim>\<open>source.start(0)\<close>, or it throws (the \<^verbatim>\<open>catch\<close> lowers \<^verbatim>\<open>isPlaying\<close>), or it
  suspends at an \<^verbatim>\<open>await\<close>.
\<close>

datatype outcome = Starts | Throws | Awaits

text \<open>
  The timeline records when a buffer source starts on the output device and when its
  \<^verbatim>\<open>onended\<close> callback fires.
\<close>

datatype 'f playback_event = RenderStart 'f | RenderEnd 'f

text \<open>
  \<open>audioQueue\<close> and \<open>isPlaying\<close> are the fields of the class. \<open>awaiting\<close> holds
  the chunks of the activations suspended at an \<^verbatim>\<open>await\<close>, \<open>rendering\<close> the chunks of
  the sources that have started and not ended.
\<close>

record 'f playback =
  audioQueue :: "'f list"
  isPlaying :: bool
  awaiting :: "'f list"
  rendering :: "'f list"
  timeline :: "'f playback_event list"

definition idle :: "'f playback" where
  "idle = \<lparr>audioQueue = [], isPlaying = False, awaiting = [], rendering = [], timeline = []\<rparr>"

text \<open>The body of the \<^verbatim>\<open>try\<close> block after \<^verbatim>\<open>this.audioQueue.shift()\<close>.\<close>

fun render_chunk :: "outcome \<Rightarrow> 'f \<Rightarrow> 'f playback \<Rightarrow> 'f playback" where
  "render_chunk Starts audioData this =
     this\<lparr>rendering := rendering this @ [audioData],
          timeline := timeline this @ [RenderStart audioData]\<rparr>"
| "render_chunk Throws audioData this = this\<lparr>isPlaying := False\<rparr>"
| "render_chunk Awaits audioData this = this\<lparr>awaiting := awaiting this @ [audioData]\<rparr>"

definition playNextAudioChunk :: "outcome \<Rightarrow> 'f playback \<Rightarrow> 'f playback" where
  "playNextAudioChunk host this =
     (case audioQueue this of
        [] \<Rightarrow> this\<lparr>isPlaying := False\<rparr>
      | audioData # queue \<Rightarrow>
          render_chunk host audioData (this\<lparr>isPlaying := True, audioQueue := queue\<rparr>))"

definition enqueueAudio :: "outcome \<Rightarrow> 'f \<Rightarrow> 'f playback \<Rightarrow> 'f playback" where
  "enqueueAudio host audioData this =
     (let this1 = this\<lparr>audioQueue := audioQueue this @ [audioData]\<rparr>
      in if \<not> isPlaying this1 then playNextAudioChunk host this1 else this1)"

definition clearAudioQueue :: "'f playback \<Rightarrow> 'f playback" where
  "clearAudioQueue this = this\<lparr>audioQueue := [], isPlaying := False\<rparr>"

text \<open>Removing the element at an index, for the callbacks of the host.\<close>

definition remove_nth :: "nat \<Rightarrow> 'a list \<Rightarrow> 'a list" where
  "remove_nth i xs = take i xs @ drop (Suc i) xs"

text \<open>
  \<^verbatim>\<open>source.onended = () => { this.playNextAudioChunk(); }\<close>: the source at index
  \<open>i\<close> of those rendering ends.
\<close>

definition onended :: "outcome \<Rightarrow> nat \<Rightarrow> 'f playback \<Rightarrow> 'f playback" where
  "onended host i this =
     (if i < length (rendering this)
      then playNextAudioChunk host
             (this\<lparr>rendering := remove_nth i (rendering this),
                   timeline := timeline this @ [RenderEnd (rendering this ! i)]\<rparr>)
      else this)"

text \<open>The awaited promise of the suspended activation at index \<open>i\<close> settles.\<close>

definition resumed :: "outcome \<Rightarrow> nat \<Rightarrow> 'f playback \<Rightarrow> 'f playback" where
  "resumed host i this =
     (if i < length (awaiting this)
      then render_chunk host (awaiting this ! i)
             (this\<lparr>awaiting := remove_nth i (awaiting this)\<rparr>)
      else this)"

datatype 'f playback_step =
  Enqueue 'f outcome | Ended nat outcome | Resumed nat outcome | Clear

fun playback_next :: "'f playback \<Rightarrow> 'f playback_step \<Rightarrow> 'f playback" where
  "playback_next this (Enqueue audioData host) = enqueueAudio host audioData this"
| "playback_next this (Ended i host) = onended host i this"
| "playback_next this (Resumed i host) = resumed host i this"
| "playback_next this Clear = clearAudioQueue this"

definition playback_run :: "'f playback \<Rightarrow> 'f playback_step list \<Rightarrow> 'f playback" where
  "playback_run this steps = foldl playback_next this steps"

text \<open>The observations the playback claims are about.\<close>

fun is_clear :: "'f playback_step \<Rightarrow> bool" where
  "is_clear Clear = True"
| "is_clear step = False"

fun step_throws :: "'f playback_step \<Rightarrow> bool" where
  "step_throws (Enqueue audioData host) = (host = Throws)"
| "step_throws (Ended i host) = (host = Throws)"
| "step_throws (Resumed i host) = (host = Throws)"
| "step_throws Clear = False"

fun enqueued :: "'f playback_step list \<Rightarrow> 'f list" where
  "enqueued [] = []"
| "enqueued (Enqueue audioData host # steps) = audioData # enqueued steps"
| "enqueued (step # steps) = enqueued steps"

fun started :: "'f playback_event list \<Rightarrow> 'f list" where
  "started [] = []"
| "started (RenderStart f # events) = f # started events"
| "started (RenderEnd f # events) = started events"

text \<open>
  A timeline is sequential when every render ends before the next one starts.
\<close>

fun sequential :: "'f playback_event list \<Rightarrow> bool" where
  "sequential [] = True"
| "sequential [RenderStart f] = True"
| "sequential (RenderStart f # RenderEnd g # events) = (f = g \<and> sequential events)"
| "sequential events = False"


text \<open>
  A timeline is settled when every render that started has ended before the next one
  started.
\<close>

fun settled :: "'f playback_event list \<Rightarrow> bool" where
  "settled [] = True"
| "settled (RenderStart f # RenderEnd g # events) = (f = g \<and> settled events)"
| "settled events = False"

text \<open>
  The invariant of the queue while \<^verbatim>\<open>clearAudioQueue\<close> is not called: \<open>isPlaying\<close>
  holds exactly when one activation of \<^verbatim>\<open>playNextAudioChunk\<close> is in flight, suspended
  or rendering, and the timeline is settled up to the render in flight.
\<close>

definition one_in_flight :: "'f playback \<Rightarrow> bool" where
  "one_in_flight this =
     ((if isPlaying this then length (rendering this) + length (awaiting this) = 1
       else rendering this = [] \<and> awaiting this = []) \<and>
      (case rendering this of
         [] \<Rightarrow> settled (timeline this)
       | f # fs \<Rightarrow> timeline this \<noteq> [] \<and> last (timeline this) = RenderStart f \<and>
                  settled (butlast (timeline this))))"

text \<open>The chunks accepted and not dropped, in the order they will have been rendered.\<close>

definition lineup :: "'f playback \<Rightarrow> 'f list" where
  "lineup this = started (timeline this) @ awaiting this @ audioQueue this"

section \<open>\<^verbatim>\<open>WebSocketManager\<close>\<close>

subsection \<open>Messages and observable effects\<close>

record turn_detection_config =
  vad_type :: string
  threshold :: real
  prefix_padding_ms :: int
  silence_duration_ms :: int

record session_config =
  modalities :: "string list"
  voice :: string
  input_audio_format :: string
  output_audio_format :: string
  turn_detection :: turn_detection_config

text \<open>The messages the manager builds, by their \<^verbatim>\<open>type\<close> field.\<close>

datatype client_message =
  SessionUpdate session_config
| InputAudioBufferAppend string
| InputAudioBufferCommit
| InputAudioBufferClear
| ResponseCreate "string list"
| ResponseCancel string

text \<open>
  \<^verbatim>\<open>evt_${Date.now()}_${++this.eventId}\<close>: the clock reading and the counter.
\<close>

datatype event_id = EventId int int

record outbound =
  payload :: client_message
  event_id :: "event_id option"

datatype log_level = LogInfo | LogSuccess | LogWarning | LogError

datatype connection_status = Offline | Connecting | Online

text \<open>
  What the manager does to its surroundings, in the order it does it: a message handed
  to \<^verbatim>\<open>socket.send\<close>, a line given to the logger, the status shown, a socket opened
  or closed, a timer set, and the callbacks of the application.
\<close>

datatype effect =
  Sent outbound
| Logged log_level
| StatusShown connection_status
| SocketOpened string
| SocketClosed
| TimeoutSet real
| ConnectCalled
| DisconnectCalled
| TextResponseCalled "string option" bool
| AudioResponseCalled "8 word list option" bool

text \<open>
  Inbound messages after \<^verbatim>\<open>JSON.parse\<close>, by their \<^verbatim>\<open>type\<close>. \<open>Unparseable\<close> is a
  text that \<^verbatim>\<open>JSON.parse\<close> rejects or a value without properties. An identifier is
  read through an object (\<^verbatim>\<open>data.session.id\<close>): the outer \<open>None\<close> is a missing
  object, on which the read throws \<^verbatim>\<open>TypeError\<close>, the inner one an undefined
  identifier.
\<close>

datatype inbound =
  Unparseable
| SessionCreated "string option option"
| ConversationCreated "string option option"
| InputAudioBufferCommitted
| ResponseCreated "string option option"
| ResponseTextDelta "string option"
| ResponseTextDone "string option"
| ResponseAudioDelta "string option"
| ResponseAudioDone
| ErrorMessage bool
| OtherType

text \<open>
  What a method returns to its caller: an event identifier, \<^verbatim>\<open>null\<close> or
  \<^verbatim>\<open>undefined\<close>.
\<close>

datatype returned = ReturnedId event_id | ReturnedNull | ReturnedUndefined

text \<open>
  What the host decides during one call: the reading of \<^verbatim>\<open>Date.now()\<close>, whether the
  \<^verbatim>\<open>try\<close> block around \<^verbatim>\<open>socket.send\<close> throws, and whether \<^verbatim>\<open>new WebSocket\<close>
  throws.
\<close>

record host =
  now :: int
  send_throws :: bool
  open_throws :: bool

subsection \<open>State\<close>

datatype websocket = WebSocket string

text \<open>
  The fields of the class. A callback field holds whether a function is assigned to it.
  \<open>timers\<close> is the host's queue of delays set by \<^verbatim>\<open>setTimeout\<close> and not yet
  elapsed; \<open>effects\<close> is the record of what has been done so far.
\<close>

record manager =
  socket :: "websocket option"
  serverUrl :: string
  isConnected :: bool
  isConnecting :: bool
  eventId :: int
  reconnectAttempts :: int
  maxReconnectAttempts :: int
  reconnectDelay :: real
  sessionId :: "string option"
  conversationId :: "string option"
  currentResponseId :: "string option"
  pendingAudioBuffers :: int
  statusElement :: bool
  onConnect :: bool
  onDisconnect :: bool
  onTextResponse :: bool
  onAudioResponse :: bool
  timers :: "real list"
  effects :: "effect list"

text \<open>
  The constructor; \<^verbatim>\<open>serverUrl || "ws://localhost:8080/"\<close> replaces an empty
  address by the default. Whether the page has a status element is a parameter.
\<close>

definition new_manager :: "string \<Rightarrow> bool \<Rightarrow> manager" where
  "new_manager url status_element =
     \<lparr>socket = None,
      serverUrl = (if url = [] then ''ws://localhost:8080/'' else url),
      isConnected = False, isConnecting = False,
      eventId = 0, reconnectAttempts = 0, maxReconnectAttempts = 5, reconnectDelay = 2000,
      sessionId = None, conversationId = None, currentResponseId = None,
      pendingAudioBuffers = 0, statusElement = status_element,
      onConnect = False, onDisconnect = False, onTextResponse = False,
      onAudioResponse = False, timers = [], effects = []\<rparr>"

definition emit :: "effect \<Rightarrow> manager \<Rightarrow> manager" where
  "emit e this = this\<lparr>effects := effects this @ [e]\<rparr>"

definition updateConnectionStatus :: "connection_status \<Rightarrow> manager \<Rightarrow> manager" where
  "updateConnectionStatus status this =
     (if \<not> statusElement this then this else emit (StatusShown status) this)"

subsection \<open>Connection life cycle\<close>

definition connect :: "host \<Rightarrow> manager \<Rightarrow> manager" where
  "connect h this =
     (if isConnected this \<or> isConnecting this then emit (Logged LogWarning) this
      else let this1 = emit (Logged LogInfo)
                         (updateConnectionStatus Connecting (this\<lparr>isConnecting := True\<rparr>))
           in if open_throws h
              then updateConnectionStatus Offline
                     ((emit (Logged LogError) this1)\<lparr>isConnecting := False\<rparr>)
              else (emit (SocketOpened (serverUrl this1)) this1)
                     \<lparr>socket := Some (WebSocket (serverUrl this1))\<rparr>)"

definition disconnect :: "manager \<Rightarrow> manager" where
  "disconnect this =
     (if \<not> isConnected this \<and> socket this = None then emit (Logged LogWarning) this
      else let this1 = emit (Logged LogInfo) this;
               this2 = (if socket this1 \<noteq> None
                        then (emit SocketClosed this1)\<lparr>socket := None\<rparr> else this1);
               this3 = updateConnectionStatus Offline
                         (this2\<lparr>isConnected := False, isConnecting := False\<rparr>);
               this4 = this3\<lparr>sessionId := None, conversationId := None,
                              currentResponseId := None, pendingAudioBuffers := 0\<rparr>
           in if onDisconnect this4 then emit DisconnectCalled this4 else this4)"

definition handleOpen :: "manager \<Rightarrow> manager" where
  "handleOpen this =
     (let this1 = updateConnectionStatus Online
                    ((emit (Logged LogSuccess) this)
                       \<lparr>isConnected := True, isConnecting := False, reconnectAttempts := 0\<rparr>)
      in if onConnect this1 then emit ConnectCalled this1 else this1)"

text \<open>
  \<^verbatim>\<open>Math.pow(1.5, this.reconnectAttempts - 1)\<close> is a power with an integer exponent,
  exact in double precision for the exponents 0 to 4 that the default ceiling allows.
\<close>

definition attemptReconnect :: "manager \<Rightarrow> manager" where
  "attemptReconnect this =
     (let this1 = this\<lparr>reconnectAttempts := reconnectAttempts this + 1\<rparr>;
          delay = reconnectDelay this1 * ((3 / 2) powi (reconnectAttempts this1 - 1));
          this2 = emit (Logged LogInfo) this1
      in (emit (TimeoutSet delay) this2)\<lparr>timers := timers this2 @ [delay]\<rparr>)"

definition handleClose :: "int \<Rightarrow> manager \<Rightarrow> manager" where
  "handleClose code this =
     (let this1 = (if isConnected this
                   then (emit (Logged LogWarning) this)\<lparr>isConnected := False\<rparr> else this);
          this2 = updateConnectionStatus Offline (this1\<lparr>isConnecting := False\<rparr>)
      in if code \<noteq> 1000 \<and> reconnectAttempts this2 < maxReconnectAttempts this2
         then attemptReconnect this2
         else if onDisconnect this2 then emit DisconnectCalled this2 else this2)"

text \<open>
  The class declares \<^verbatim>\<open>handleError\<close> twice; the second declaration replaces the first,
  so the handler of the socket's error event and of an inbound \<^verbatim>\<open>error\<close> message only
  logs.
\<close>

definition handleError :: "manager \<Rightarrow> manager" where
  "handleError this = emit (Logged LogError) this"

text \<open>
  The function given to \<^verbatim>\<open>setTimeout\<close> by \<^verbatim>\<open>attemptReconnect\<close>, run when the delay
  at index \<open>i\<close> of the timer queue has elapsed.
\<close>

definition retry_elapsed :: "host \<Rightarrow> nat \<Rightarrow> manager \<Rightarrow> manager" where
  "retry_elapsed h i this =
     (if i < length (timers this)
      then let this1 = this\<lparr>timers := remove_nth i (timers this)\<rparr>
           in if \<not> isConnected this1 \<and> \<not> isConnecting this1 then connect h this1 else this1
      else this)"

subsection \<open>Outbound messages\<close>

definition sendMessage :: "host \<Rightarrow> outbound \<Rightarrow> manager \<Rightarrow> returned \<times> manager" where
  "sendMessage h message this =
     (if \<not> isConnected this \<or> socket this = None
      then (ReturnedUndefined, emit (Logged LogError) this)
      else let (evt, this1) =
                 (case event_id message of
                    None \<Rightarrow> (EventId (now h) (eventId this + 1),
                              this\<lparr>eventId := eventId this + 1\<rparr>)
                  | Some given \<Rightarrow> (given, this))
           in if send_throws h then (ReturnedNull, emit (Logged LogError) this1)
              else (ReturnedId evt,
                    emit (Logged LogInfo)
                      (emit (Sent (message\<lparr>event_id := Some evt\<rparr>)) this1)))"

definition updateSession :: "host \<Rightarrow> session_config \<Rightarrow> manager \<Rightarrow> returned \<times> manager" where
  "updateSession h config this =
     sendMessage h \<lparr>payload = SessionUpdate config, event_id = None\<rparr> this"

definition appendAudioBuffer :: "host \<Rightarrow> typed_array \<Rightarrow> manager \<Rightarrow> returned \<times> manager" where
  "appendAudioBuffer h audioData this =
     (if \<not> isConnected this then (ReturnedNull, emit (Logged LogWarning) this)
      else let this1 = this\<lparr>pendingAudioBuffers := pendingAudioBuffers this + 1\<rparr>;
               base64Audio = arrayToBase64 audioData
           in sendMessage h \<lparr>payload = InputAudioBufferAppend base64Audio, event_id = None\<rparr>
                this1)"

definition commitAudioBuffer :: "host \<Rightarrow> manager \<Rightarrow> returned \<times> manager" where
  "commitAudioBuffer h this =
     (if pendingAudioBuffers this \<le> 0 then (ReturnedNull, emit (Logged LogWarning) this)
      else sendMessage h \<lparr>payload = InputAudioBufferCommit, event_id = None\<rparr>
             (emit (Logged LogInfo) (this\<lparr>pendingAudioBuffers := 0\<rparr>)))"

definition clearAudioBuffer :: "host \<Rightarrow> manager \<Rightarrow> returned \<times> manager" where
  "clearAudioBuffer h this =
     sendMessage h \<lparr>payload = InputAudioBufferClear, event_id = None\<rparr>
       (this\<lparr>pendingAudioBuffers := 0\<rparr>)"

definition createResponse :: "host \<Rightarrow> manager \<Rightarrow> returned \<times> manager" where
  "createResponse h this =
     sendMessage h \<lparr>payload = ResponseCreate [''audio'', ''text''], event_id = None\<rparr> this"

definition cancelResponse :: "host \<Rightarrow> manager \<Rightarrow> returned \<times> manager" where
  "cancelResponse h this =
     (case currentResponseId this of
        None \<Rightarrow> (ReturnedNull, emit (Logged LogWarning) this)
      | Some response_id \<Rightarrow>
          if response_id = [] then (ReturnedNull, emit (Logged LogWarning) this)
          else sendMessage h \<lparr>payload = ResponseCancel response_id, event_id = None\<rparr>
                 this)"

subsection \<open>Inbound messages\<close>

definition session_defaults :: session_config where
  "session_defaults =
     \<lparr>modalities = [''audio'', ''text''], voice = ''alloy'',
      input_audio_format = ''pcm16'', output_audio_format = ''pcm16'',
      turn_detection = \<lparr>vad_type = ''semantic_vad'', threshold = 1 / 2,
                        prefix_padding_ms = 300, silence_duration_ms = 700\<rparr>\<rparr>"

definition handleSessionCreated :: "host \<Rightarrow> string option \<Rightarrow> manager \<Rightarrow> manager" where
  "handleSessionCreated h session_id this =
     snd (updateSession h session_defaults
            (emit (Logged LogSuccess) (this\<lparr>sessionId := session_id\<rparr>)))"

definition handleConversationCreated :: "string option \<Rightarrow> manager \<Rightarrow> manager" where
  "handleConversationCreated conversation_id this =
     emit (Logged LogInfo) (this\<lparr>conversationId := conversation_id\<rparr>)"

text \<open>
  \<^verbatim>\<open>handleMessage\<close>: every exception raised while a message is handled is caught and
  logged as an error. \<^verbatim>\<open>logger.logObject\<close> logs the parsed message first.
\<close>

definition parse_failed :: "manager \<Rightarrow> manager" where
  "parse_failed this = emit (Logged LogError) this"

fun handleMessage :: "host \<Rightarrow> inbound \<Rightarrow> manager \<Rightarrow> manager" where
  "handleMessage h Unparseable this = parse_failed this"
| "handleMessage h (SessionCreated None) this = parse_failed (emit (Logged LogInfo) this)"
| "handleMessage h (SessionCreated (Some session_id)) this =
     handleSessionCreated h session_id (emit (Logged LogInfo) this)"
| "handleMessage h (ConversationCreated None) this =
     parse_failed (emit (Logged LogInfo) this)"
| "handleMessage h (ConversationCreated (Some conversation_id)) this =
     handleConversationCreated conversation_id (emit (Logged LogInfo) this)"
| "handleMessage h InputAudioBufferCommitted this =
     emit (Logged LogInfo) (emit (Logged LogInfo) this)"
| "handleMessage h (ResponseCreated None) this = parse_failed (emit (Logged LogInfo) this)"
| "handleMessage h (ResponseCreated (Some response_id)) this =
     emit (Logged LogInfo) ((emit (Logged LogInfo) this)\<lparr>currentResponseId := response_id\<rparr>)"
| "handleMessage h (ResponseTextDelta delta) this =
     (let this1 = emit (Logged LogInfo) this
      in if onTextResponse this1 then emit (TextResponseCalled delta False) this1 else this1)"
| "handleMessage h (ResponseTextDone txt) this =
     (let this1 = emit (Logged LogInfo) this
      in if onTextResponse this1 then emit (TextResponseCalled txt True) this1 else this1)"
| "handleMessage h (ResponseAudioDelta delta) this =
     (let this1 = emit (Logged LogInfo) this
      in case delta of
           None \<Rightarrow> this1
         | Some base64 \<Rightarrow>
             if onAudioResponse this1 \<and> base64 \<noteq> []
             then (case base64ToUint8Array base64 of
                     Inl e \<Rightarrow> parse_failed this1
                   | Inr audioBytes \<Rightarrow>
                       emit (AudioResponseCalled (Some audioBytes) False) this1)
             else this1)"
| "handleMessage h ResponseAudioDone this =
     (let this1 = emit (Logged LogInfo) this
      in if onAudioResponse this1 then emit (AudioResponseCalled None True) this1 else this1)"
| "handleMessage h (ErrorMessage has_error) this =
     (let this1 = emit (Logged LogInfo) this
      in if has_error then handleError this1 else parse_failed this1)"
| "handleMessage h OtherType this = emit (Logged LogInfo) this"

subsection \<open>Everything that can happen to a manager\<close>

text \<open>
  The events of the socket, the elapsing of a reconnect timer and the calls of the
  public methods.
\<close>

datatype manager_event =
  Connect
| Disconnect
| Open
| Close int
| SocketError
| Message inbound
| RetryElapsed nat
| SendMessage outbound
| UpdateSession session_config
| AppendAudioBuffer typed_array
| CommitAudioBuffer
| ClearAudioBuffer
| CreateResponse
| CancelResponse

fun manager_step :: "manager \<Rightarrow> host \<times> manager_event \<Rightarrow> manager" where
  "manager_step this (h, Connect) = connect h this"
| "manager_step this (h, Disconnect) = disconnect this"
| "manager_step this (h, Open) = handleOpen this"
| "manager_step this (h, Close code) = handleClose code this"
| "manager_step this (h, SocketError) = handleError this"
| "manager_step this (h, Message data) = handleMessage h data this"
| "manager_step this (h, RetryElapsed i) = retry_elapsed h i this"
| "manager_step this (h, SendMessage message) = snd (sendMessage h message this)"
| "manager_step this (h, UpdateSession config) = snd (updateSession h config this)"
| "manager_step this (h, AppendAudioBuffer audioData) =
     snd (appendAudioBuffer h audioData this)"
| "manager_step this (h, CommitAudioBuffer) = snd (commitAudioBuffer h this)"
| "manager_step this (h, ClearAudioBuffer) = snd (clearAudioBuffer h this)"
| "manager_step this (h, CreateResponse) = snd (createResponse h this)"
| "manager_step this (h, CancelResponse) = snd (cancelResponse h this)"

definition manager_run :: "manager \<Rightarrow> (host \<times> manager_event) list \<Rightarrow> manager" where
  "manager_run this events = foldl manager_step this events"

text \<open>Observations on the record of effects.\<close>

fun sent :: "effect list \<Rightarrow> outbound list" where
  "sent [] = []"
| "sent (Sent message # es) = message # sent es"
| "sent (e # es) = sent es"

fun timeouts :: "effect list \<Rightarrow> real list" where
  "timeouts [] = []"
| "timeouts (TimeoutSet delay # es) = delay # timeouts es"
| "timeouts (e # es) = timeouts es"

definition commits :: "effect list \<Rightarrow> outbound list" where
  "commits es = filter (\<lambda>message. payload message = InputAudioBufferCommit) (sent es)"

text \<open>Appending a list of frames, one call each.\<close>

fun append_all :: "(host \<times> typed_array) list \<Rightarrow> manager \<Rightarrow> manager" where
  "append_all [] this = this"
| "append_all ((h, audioData) # frames) this =
     append_all frames (snd (appendAudioBuffer h audioData this))"

fun disconnect_calls :: "effect list \<Rightarrow> nat" where
  "disconnect_calls [] = 0"
| "disconnect_calls (DisconnectCalled # es) = Suc (disconnect_calls es)"
| "disconnect_calls (e # es) = disconnect_calls es"

fun is_open :: "host \<times> manager_event \<Rightarrow> bool" where
  "is_open (h, Open) = True"
| "is_open (h, event) = False"

section \<open>Properties of the PCM codec\<close>

lemma clamp_sample_Finite: "clamp_sample (Finite r) = Finite (max (- 1) (min 1 r))"
  by (simp add: clamp_sample_def)

lemma clamp_sample_cases:
  "x = NaN \<and> clamp_sample x = NaN \<or>
   x \<noteq> NaN \<and> (\<exists>s. clamp_sample x = Finite s \<and> - 1 \<le> s \<and> s \<le> 1)"
  by (cases x) (auto simp: clamp_sample_def)

lemma sint_int16: "- 32768 \<le> k \<Longrightarrow> k \<le> 32767 \<Longrightarrow> sint (word_of_int k :: 16 word) = k"
  by (simp add: sint_sbintrunc' signed_take_bit_int_eq_self_iff)

lemma js_truncate_negative:
  assumes "- 1 \<le> s" "s < 0"
  shows "js_truncate (s * 32768) = \<lceil>s * 32768\<rceil>"
    and "- 32768 \<le> \<lceil>s * 32768\<rceil>" and "\<lceil>s * 32768\<rceil> \<le> 0"
proof -
  have "- 32768 \<le> s * 32768" "s * 32768 < 0" using assms by auto
  then show "js_truncate (s * 32768) = \<lceil>s * 32768\<rceil>"
    and "- 32768 \<le> \<lceil>s * 32768\<rceil>" and "\<lceil>s * 32768\<rceil> \<le> 0"
    by (simp_all add: js_truncate_def le_ceiling_iff ceiling_le_iff)
qed

lemma js_truncate_nonnegative:
  assumes "0 \<le> s" "s \<le> 1"
  shows "js_truncate (s * 32767) = \<lfloor>s * 32767\<rfloor>"
    and "0 \<le> \<lfloor>s * 32767\<rfloor>" and "\<lfloor>s * 32767\<rfloor> \<le> 32767"
proof -
  have "0 \<le> s * 32767" "s * 32767 \<le> 32767" using assms by auto
  then show "js_truncate (s * 32767) = \<lfloor>s * 32767\<rfloor>"
    and "0 \<le> \<lfloor>s * 32767\<rfloor>" and "\<lfloor>s * 32767\<rfloor> \<le> 32767"
    by (simp_all add: js_truncate_def le_floor_iff floor_le_iff)
qed

lemma pcm16_of_sample_Finite:
  assumes "clamp_sample x = Finite s"
  shows "pcm16_of_sample x =
         word_of_int (js_truncate (if s < 0 then s * 32768 else s * 32767))"
  using assms by (simp add: pcm16_of_sample_def)

lemma sint_pcm16_of_sample:
  assumes "clamp_sample x = Finite s" "- 1 \<le> s" "s \<le> 1"
  shows "sint (pcm16_of_sample x) = js_truncate (if s < 0 then s * 32768 else s * 32767)"
proof (cases "s < 0")
  case True
  with assms js_truncate_negative [of s] show ?thesis
    by (simp add: pcm16_of_sample_Finite sint_int16)
next
  case False
  with assms js_truncate_nonnegative [of s] show ?thesis
    by (simp add: pcm16_of_sample_Finite sint_int16)
qed

lemma pcm16_of_sample_NaN: "pcm16_of_sample NaN = 0"
  by (simp add: pcm16_of_sample_def clamp_sample_def)

lemma floatTo16BitPCM_length: "length (floatTo16BitPCM input) = length input"
  by (induction input) auto

lemma floatTo16BitPCM_nth:
  "i < length input \<Longrightarrow> floatTo16BitPCM input ! i = pcm16_of_sample (input ! i)"
  by (induction input arbitrary: i) (auto simp: nth_Cons split: nat.splits)

lemma int16ToFloat32_loop_length: "length (int16ToFloat32_loop fround vs) = length vs"
  by (induction vs) auto

lemma int16ToFloat32_loop_nth:
  "i < length vs \<Longrightarrow> int16ToFloat32_loop fround vs ! i = float_of_pcm16 fround (vs ! i)"
  by (induction vs arbitrary: i) (auto simp: nth_Cons split: nat.splits)

text \<open>
  The error of one sample through both directions, before the rounding of the
  \<^verbatim>\<open>Float32Array\<close> store: below \<open>1 / 32768\<close> on the negative side, below
  \<open>1 / 32767\<close> on the other.
\<close>

lemma roundtrip_sample_negative:
  assumes "clamp_sample x = Finite s" "- 1 \<le> s" "s < 0"
  shows "\<bar>float_of_pcm16 (\<lambda>v. v) (pcm16_of_sample x) - s\<bar> < 1 / 32768"
proof -
  let ?q = "\<lceil>s * 32768\<rceil>"
  have q: "sint (pcm16_of_sample x) = ?q"
    using assms js_truncate_negative [of s] by (simp add: sint_pcm16_of_sample)
  have lo: "s * 32768 \<le> real_of_int ?q" and hi: "real_of_int ?q < s * 32768 + 1"
    by linarith+
  show ?thesis
  proof (cases "?q < 0")
    case True
    then have eq: "float_of_pcm16 (\<lambda>v. v) (pcm16_of_sample x) = real_of_int ?q / 32768"
      by (simp add: float_of_pcm16_def q)
    have "\<bar>real_of_int ?q / 32768 - s\<bar> < 1 / 32768"
      using lo hi by (simp add: abs_less_iff field_simps)
    then show ?thesis unfolding eq .
  next
    case False
    moreover have "?q \<le> 0" using js_truncate_negative(3) [of s] assms by blast
    ultimately have zero: "?q = 0" by linarith
    then have "float_of_pcm16 (\<lambda>v. v) (pcm16_of_sample x) = 0"
      by (simp add: float_of_pcm16_def q)
    moreover have "\<bar>s\<bar> < 1 / 32768"
      using hi assms zero by (simp add: abs_less_iff)
    ultimately show ?thesis by simp
  qed
qed

lemma roundtrip_sample_nonnegative:
  assumes "clamp_sample x = Finite s" "0 \<le> s" "s \<le> 1"
  shows "\<bar>float_of_pcm16 (\<lambda>v. v) (pcm16_of_sample x) - s\<bar> < 1 / 32767"
proof -
  let ?q = "\<lfloor>s * 32767\<rfloor>"
  have q: "sint (pcm16_of_sample x) = ?q"
    using assms js_truncate_nonnegative [of s] by (simp add: sint_pcm16_of_sample)
  have lo: "real_of_int ?q \<le> s * 32767" and hi: "s * 32767 < real_of_int ?q + 1"
    by linarith+
  have "0 \<le> ?q" using assms js_truncate_nonnegative [of s] by simp
  then have eq: "float_of_pcm16 (\<lambda>v. v) (pcm16_of_sample x) = real_of_int ?q / 32767"
    by (simp add: float_of_pcm16_def q)
  have "\<bar>real_of_int ?q / 32767 - s\<bar> < 1 / 32767"
    using lo hi by (simp add: abs_less_iff field_simps)
  then show ?thesis unfolding eq .
qed

lemma float_of_pcm16_fround:
  "float_of_pcm16 fround v = fround (float_of_pcm16 (\<lambda>v. v) v)"
  by (simp add: float_of_pcm16_def)

lemma float_of_pcm16_range: "\<bar>float_of_pcm16 (\<lambda>v. v) w\<bar> \<le> 1"
proof -
  define k where "k = sint w"
  have "- 32768 \<le> k" "k < 32768"
    using sint_ge [of w] sint_lt [of w] by (simp_all add: k_def)
  then have "\<bar>real_of_int k / (if k < 0 then 32768 else 32767)\<bar> \<le> 1"
    by (simp add: abs_le_iff field_simps)
  then show ?thesis
    unfolding float_of_pcm16_def k_def .
qed

lemma roundtrip_sample:
  assumes "clamp_sample x = Finite s" "- 1 \<le> s" "s \<le> 1"
    and "\<bar>fround (float_of_pcm16 (\<lambda>v. v) (pcm16_of_sample x))
          - float_of_pcm16 (\<lambda>v. v) (pcm16_of_sample x)\<bar> \<le> e"
  shows "\<bar>float_of_pcm16 fround (pcm16_of_sample x) - s\<bar>
         < (if s < 0 then 1 / 32768 else 1 / 32767) + e"
proof -
  let ?y = "float_of_pcm16 (\<lambda>v. v) (pcm16_of_sample x)"
  have exact: "\<bar>?y - s\<bar> < (if s < 0 then 1 / 32768 else 1 / 32767)"
    using assms(1-3) roundtrip_sample_negative [of x s] roundtrip_sample_nonnegative [of x s]
    by (cases "s < 0") simp_all
  have "\<bar>fround ?y - s\<bar> \<le> \<bar>fround ?y - ?y\<bar> + \<bar>?y - s\<bar>" by simp
  with exact assms(4) show ?thesis
    by (simp add: float_of_pcm16_fround [of fround])
qed

text \<open>
  Claim C8. For every input sequence \<^verbatim>\<open>floatTo16BitPCM\<close> returns a sequence of the
  same length, with no failure. Each sample that is a number is first clamped to
  \<open>[-1, 1]\<close> (the infinities to \<open>1\<close> and \<open>-1\<close>); the clamped sample \<open>s\<close> is
  stored as \<open>s * 32768\<close> when \<open>s < 0\<close> and as \<open>s * 32767\<close> otherwise, truncated
  towards zero, and the result fits an int16 without wrapping. \<^verbatim>\<open>NaN\<close> is stored
  as 0.
\<close>

theorem floatTo16BitPCM_clamps_scales_truncates:
  "length (floatTo16BitPCM input) = length input \<and>
   (\<forall>i<length input.
      (\<forall>r. input ! i = Finite r \<longrightarrow>
           clamp_sample (input ! i) = Finite (max (- 1) (min 1 r))) \<and>
      (input ! i = PosInfinity \<longrightarrow> clamp_sample (input ! i) = Finite 1) \<and>
      (input ! i = NegInfinity \<longrightarrow> clamp_sample (input ! i) = Finite (- 1)) \<and>
      (input ! i = NaN \<longrightarrow> floatTo16BitPCM input ! i = 0) \<and>
      (input ! i \<noteq> NaN \<longrightarrow>
         (\<exists>s. clamp_sample (input ! i) = Finite s \<and> - 1 \<le> s \<and> s \<le> 1 \<and>
              sint (floatTo16BitPCM input ! i) =
              js_truncate (if s < 0 then s * 32768 else s * 32767))))"
proof (intro conjI allI impI)
  show "length (floatTo16BitPCM input) = length input"
    by (rule floatTo16BitPCM_length)
next
  fix i r assume "i < length input" "input ! i = Finite r"
  then show "clamp_sample (input ! i) = Finite (max (- 1) (min 1 r))"
    by (simp add: clamp_sample_Finite)
next
  fix i assume "i < length input" "input ! i = PosInfinity"
  then show "clamp_sample (input ! i) = Finite 1" by (simp add: clamp_sample_def)
next
  fix i assume "i < length input" "input ! i = NegInfinity"
  then show "clamp_sample (input ! i) = Finite (- 1)" by (simp add: clamp_sample_def)
next
  fix i assume "i < length input" "input ! i = NaN"
  then show "floatTo16BitPCM input ! i = 0"
    by (simp add: floatTo16BitPCM_nth pcm16_of_sample_NaN)
next
  fix i assume i: "i < length input" and "input ! i \<noteq> NaN"
  with clamp_sample_cases [of "input ! i"]
  obtain s where s: "clamp_sample (input ! i) = Finite s" "- 1 \<le> s" "s \<le> 1" by blast
  then have "sint (floatTo16BitPCM input ! i) =
             js_truncate (if s < 0 then s * 32768 else s * 32767)"
    using i by (simp add: floatTo16BitPCM_nth sint_pcm16_of_sample)
  with s show "\<exists>s. clamp_sample (input ! i) = Finite s \<and> - 1 \<le> s \<and> s \<le> 1 \<and>
                  sint (floatTo16BitPCM input ! i) =
                  js_truncate (if s < 0 then s * 32768 else s * 32767)"
    by blast
qed

theorem floatTo16BitPCM_clamps_scales_truncates_witness:
  "length (floatTo16BitPCM [Finite (1 / 2), Finite (- 2), NaN]) = 3 \<and>
   (1 :: nat) < length [Finite (1 / 2), Finite (- 2), NaN] \<and>
   [Finite (1 / 2), Finite (- 2), NaN] ! 1 \<noteq> NaN \<and>
   (\<exists>s. clamp_sample ([Finite (1 / 2), Finite (- 2), NaN] ! 1) = Finite s \<and>
        - 1 \<le> s \<and> s \<le> 1 \<and>
        sint (floatTo16BitPCM [Finite (1 / 2), Finite (- 2), NaN] ! 1) =
        js_truncate (if s < 0 then s * 32768 else s * 32767)) \<and>
   map sint (floatTo16BitPCM [Finite (1 / 2), Finite (- 2), NaN]) = [16383, - 32768, 0]"
proof -
  let ?input = "[Finite (1 / 2), Finite (- 2), NaN]"
  note spec_at = floatTo16BitPCM_clamps_scales_truncates [of ?input]
  have len: "length (floatTo16BitPCM ?input) = 3"
    using spec_at [THEN conjunct1] by simp
  have hyp1: "(1 :: nat) < length ?input" by simp
  have hyp2: "?input ! 1 \<noteq> NaN" by simp
  note at1 = spec_at [THEN conjunct2, THEN spec, THEN mp, OF hyp1]
  note number = at1 [THEN conjunct2, THEN conjunct2, THEN conjunct2, THEN conjunct2,
      THEN mp, OF hyp2]
  have computed: "map sint (floatTo16BitPCM ?input) = [16383, - 32768, 0]"
    by (simp add: pcm16_of_sample_def clamp_sample_def js_truncate_def)
  show ?thesis
    by (intro conjI) (rule len, rule hyp1, rule hyp2, rule number, rule computed)
qed

text \<open>
  Claim C6, as the spec states it, with the bound \<open>1 / 32768\<close>: it fails for a small
  positive sample. The Float32 value \<open>2\<^sup>-\<^sup>1\<^sup>5 + 2\<^sup>-\<^sup>3\<^sup>1\<close> is encoded as 0, since its product
  with 32767 is below 1, and 0 decodes to 0 (exactly, whatever the rounding), so the
  error is the sample itself, which exceeds \<open>1 / 32768\<close>.
\<close>

theorem roundtrip_quantization_step_counterexample:
  "clamp_sample (Finite (65537 / 2147483648)) = Finite (65537 / 2147483648) \<and>
   int16ToFloat32 (\<lambda>v. v) (Int16Array (floatTo16BitPCM [Finite (65537 / 2147483648)]))
     = Inr [0] \<and>
   \<not> \<bar>0 - 65537 / 2147483648\<bar> \<le> (1 / 32768 :: real)"
  by (simp add: clamp_sample_def pcm16_of_sample_def js_truncate_def float_of_pcm16_def)

text \<open>
  Claim C6, amended. Whatever the input, decoding the encoded sequence succeeds and
  returns as many samples. For each sample that is a number, the result differs from the
  clamped sample \<open>s\<close> by less than one step of the scale used for it, \<open>1 / 32768\<close>
  when \<open>s < 0\<close> and \<open>1 / 32767\<close> otherwise, plus the error \<open>e\<close> that rounding
  a quotient in \<open>[-1, 1]\<close> to single precision can make.
\<close>

theorem roundtrip_within_one_step:
  assumes "\<forall>v. \<bar>v\<bar> \<le> 1 \<longrightarrow> \<bar>fround v - v\<bar> \<le> e"
  shows "\<exists>output.
           int16ToFloat32 fround (Int16Array (floatTo16BitPCM input)) = Inr output \<and>
           length output = length input \<and>
           (\<forall>i<length input. \<forall>s. clamp_sample (input ! i) = Finite s \<longrightarrow>
              \<bar>output ! i - s\<bar> < (if s < 0 then 1 / 32768 else 1 / 32767) + e)"
proof -
  let ?output = "int16ToFloat32_loop fround (floatTo16BitPCM input)"
  have "\<bar>?output ! i - s\<bar> < (if s < 0 then 1 / 32768 else 1 / 32767) + e"
    if i: "i < length input" and s: "clamp_sample (input ! i) = Finite s" for i s
  proof -
    let ?y = "float_of_pcm16 (\<lambda>v. v) (pcm16_of_sample (input ! i))"
    from s clamp_sample_cases [of "input ! i"] have range: "- 1 \<le> s" "s \<le> 1" by auto
    have rounded: "\<bar>fround ?y - ?y\<bar> \<le> e"
      using assms float_of_pcm16_range [of "pcm16_of_sample (input ! i)"] by blast
    have "?output ! i = float_of_pcm16 fround (pcm16_of_sample (input ! i))"
      using i by (simp add: int16ToFloat32_loop_nth floatTo16BitPCM_length floatTo16BitPCM_nth)
    with roundtrip_sample [of "input ! i" s fround e, OF s range rounded]
    show ?thesis by simp
  qed
  then show ?thesis
    by (simp add: int16ToFloat32_loop_length floatTo16BitPCM_length)
qed

theorem roundtrip_within_one_step_witness:
  "(0 :: nat) < length [Finite (65537 / 2147483648)] \<and>
   clamp_sample ([Finite (65537 / 2147483648)] ! 0) = Finite (65537 / 2147483648) \<and>
   (\<exists>output.
      int16ToFloat32 (\<lambda>v. v) (Int16Array (floatTo16BitPCM [Finite (65537 / 2147483648)]))
        = Inr output \<and>
      \<bar>output ! 0 - 65537 / 2147483648\<bar> < 1 / 32767 + 0)"
proof -
  let ?input = "[Finite (65537 / 2147483648)]"
  have hyp: "\<forall>v :: real. \<bar>v\<bar> \<le> 1 \<longrightarrow> \<bar>(\<lambda>v. v) v - v\<bar> \<le> 0" by simp
  have idx: "(0 :: nat) < length ?input" by simp
  have clamp: "clamp_sample (?input ! 0) = Finite (65537 / 2147483648)"
    by (simp add: clamp_sample_def)
  from roundtrip_within_one_step [OF hyp, of ?input]
  obtain decoded where
    out: "int16ToFloat32 (\<lambda>v. v) (Int16Array (floatTo16BitPCM ?input)) = Inr decoded"
    and bound: "\<forall>i<length ?input. \<forall>s. clamp_sample (?input ! i) = Finite s \<longrightarrow>
                  \<bar>decoded ! i - s\<bar> < (if s < 0 then 1 / 32768 else 1 / 32767) + 0"
    by (elim exE conjE)
  from bound [THEN spec, THEN mp, OF idx, THEN spec, THEN mp, OF clamp]
  have "\<bar>decoded ! 0 - 65537 / 2147483648\<bar> < 1 / 32767 + 0" by simp
  with out have "\<exists>output.
      int16ToFloat32 (\<lambda>v. v) (Int16Array (floatTo16BitPCM ?input)) = Inr output \<and>
      \<bar>output ! 0 - 65537 / 2147483648\<bar> < 1 / 32767 + 0"
    by (intro exI conjI)
  with idx clamp show ?thesis by (intro conjI)
qed

section \<open>Properties of the transport encoding\<close>

lemma b64_alphabet_length: "length b64_alphabet = 64"
  by (simp add: b64_alphabet_def)

lemma b64_alphabet_distinct: "distinct b64_alphabet"
  by (simp add: b64_alphabet_def)

lemma b64_alphabet_no_padding: "CHR ''='' \<notin> set b64_alphabet"
  by (simp add: b64_alphabet_def)

lemma b64_alphabet_no_whitespace: "c \<in> set b64_alphabet \<Longrightarrow> \<not> ascii_whitespace c"
  by (auto simp: b64_alphabet_def ascii_whitespace_def)

lemma b64_char_in_alphabet: "v < 64 \<Longrightarrow> b64_char v \<in> set b64_alphabet"
  by (simp add: b64_char_def b64_alphabet_length)

lemma b64_char_not_padding: "v < 64 \<Longrightarrow> b64_char v \<noteq> CHR ''=''"
  using b64_char_in_alphabet b64_alphabet_no_padding by metis

lemma b64_value_char: "v < 64 \<Longrightarrow> b64_value (b64_char v) = Some v"
proof -
  assume v: "v < 64"
  have "map_of (zip b64_alphabet [0..<64]) (b64_alphabet ! v) = Some ([0..<64] ! v)"
    by (rule map_of_zip_nth) (simp_all add: b64_alphabet_length b64_alphabet_distinct v)
  with v show ?thesis by (simp add: b64_value_def b64_char_def)
qed

lemma those_b64_values:
  "\<forall>v\<in>set vs. v < 64 \<Longrightarrow> those (map b64_value (map b64_char vs)) = Some vs"
  by (induction vs) (simp_all add: b64_value_char)

lemma b64_encode_parts:
  "b64_encode bytes = map b64_char (b64_sextets bytes) @ replicate (b64_pad bytes) CHR ''=''"
  by (induction bytes rule: b64_encode.induct) (simp_all add: numeral_2_eq_2)

lemma b64_sextets_range:
  "\<forall>b\<in>set bytes. b < 256 \<Longrightarrow> \<forall>v\<in>set (b64_sextets bytes). v < 64"
proof (induction bytes rule: b64_sextets.induct)
  case (4 a b c bytes)
  have "a div 4 < 64" "a mod 4 * 16 + b div 16 < 64" "b mod 16 * 4 + c div 64 < 64"
    "c mod 64 < 64"
    using "4.prems" by auto
  with 4 show ?case by simp
qed auto

lemma b64_shape:
  "b64_pad bytes \<le> 2 \<and> length (b64_sextets bytes) mod 4 \<noteq> 1 \<and>
   (length (b64_sextets bytes) + b64_pad bytes) mod 4 = 0"
  by (induction bytes rule: b64_sextets.induct) simp_all

lemma b64_decode_sextets:
  "\<forall>b\<in>set bytes. b < 256 \<Longrightarrow> b64_decode (b64_sextets bytes) = bytes"
proof (induction bytes rule: b64_sextets.induct)
  case 1
  show ?case by simp
next
  case (2 a)
  show ?case by simp
next
  case (3 a b)
  have "(a mod 4 * 16 + b div 16) div 16 = a mod 4"
    "(a mod 4 * 16 + b div 16) mod 16 = b div 16"
    using "3.prems" by auto
  then show ?case by simp
next
  case (4 a b c bytes)
  have "(a mod 4 * 16 + b div 16) div 16 = a mod 4"
    "(a mod 4 * 16 + b div 16) mod 16 = b div 16"
    "(b mod 16 * 4 + c div 64) div 4 = b mod 16"
    "(b mod 16 * 4 + c div 64) mod 4 = c div 64"
    using "4.prems" by auto
  with 4 show ?case by simp
qed

lemma strip_b64_padding_encoded:
  assumes "\<forall>v\<in>set vs. v < 64" "p \<le> 2" "(length vs + p) mod 4 = 0"
  shows "strip_b64_padding (map b64_char vs @ replicate p CHR ''='') = map b64_char vs"
proof -
  have last_char: "last (map b64_char vs) \<noteq> CHR ''=''" if "vs \<noteq> []"
    using that assms(1) by (simp add: last_map b64_char_not_padding)
  from assms(2) consider "p = 0" | "p = 1" | "p = 2" by linarith
  then show ?thesis
  proof cases
    case 1
    then show ?thesis using last_char by (cases "vs = []") (simp_all add: strip_b64_padding_def)
  next
    case 2
    with assms(3) have "vs \<noteq> []" by auto
    with 2 assms(3) last_char show ?thesis
      by (simp add: strip_b64_padding_def butlast_append)
  next
    case 3
    then have "replicate p CHR ''='' = [CHR ''='', CHR ''='']"
      by (simp add: numeral_2_eq_2)
    with 3 assms(3) show ?thesis
      by (simp add: strip_b64_padding_def butlast_append)
  qed
qed

lemma filter_whitespace_encoded:
  assumes "\<forall>v\<in>set vs. v < 64"
  shows "filter (\<lambda>c. \<not> ascii_whitespace c) (map b64_char vs @ replicate p CHR ''='')
         = map b64_char vs @ replicate p CHR ''=''"
proof -
  have "\<not> ascii_whitespace (b64_char v)" if "v \<in> set vs" for v
    using that assms b64_alphabet_no_whitespace b64_char_in_alphabet by blast
  moreover have "\<not> ascii_whitespace CHR ''=''" by (simp add: ascii_whitespace_def)
  ultimately show ?thesis by (auto simp: filter_id_conv)
qed

lemma atob_b64_encode:
  assumes "\<forall>b\<in>set bytes. b < 256"
  shows "atob (b64_encode bytes) = Inr (map char_of bytes)"
proof -
  let ?vs = "b64_sextets bytes"
  have range: "\<forall>v\<in>set ?vs. v < 64" using assms by (rule b64_sextets_range)
  have "filter (\<lambda>c. \<not> ascii_whitespace c) (b64_encode bytes) = b64_encode bytes"
    unfolding b64_encode_parts using range by (rule filter_whitespace_encoded)
  moreover have "strip_b64_padding (b64_encode bytes) = map b64_char ?vs"
    unfolding b64_encode_parts
    using range b64_shape [of bytes] by (intro strip_b64_padding_encoded) simp_all
  ultimately have stripped:
    "strip_b64_padding (filter (\<lambda>c. \<not> ascii_whitespace c) (b64_encode bytes))
     = map b64_char ?vs"
    by simp
  have "length (map b64_char ?vs) mod 4 \<noteq> 1" using b64_shape [of bytes] by simp
  moreover have "those (map b64_value (map b64_char ?vs)) = Some ?vs"
    using range by (rule those_b64_values)
  ultimately show ?thesis
    using assms by (simp add: atob_def stripped b64_decode_sextets del: map_map)
qed

lemma atob_btoa: "atob (btoa binary) = Inr binary"
proof -
  have "\<forall>b\<in>set (map of_char binary). b < (256 :: nat)" by simp
  then have "atob (b64_encode (map of_char binary)) = Inr (map char_of (map of_char binary :: nat list))"
    by (rule atob_b64_encode)
  then show ?thesis by (simp add: btoa_def comp_def)
qed

lemma bytes_of_binary_of_bytes: "bytes_of_binary (binary_of_bytes bytes) = bytes"
proof (induction bytes)
  case Nil
  show ?case by simp
next
  case (Cons b bytes)
  have "unat b < 256" using unsigned_less [of b, where ?'a = nat] by simp
  then have "(of_nat (of_char (char_of (unat b))) :: 8 word) = b" by simp
  with Cons show ?case by simp
qed

lemma binary_of_bytes_inj:
  "binary_of_bytes bs = binary_of_bytes bs' \<Longrightarrow> bs = bs'"
  by (metis bytes_of_binary_of_bytes)

lemma base64_roundtrip: "base64ToUint8Array (arrayToBase64 buffer) = Inr (bytes_of buffer)"
  by (simp add: base64ToUint8Array_def arrayToBase64_def atob_btoa bytes_of_binary_of_bytes)

text \<open>
  Claim C7. For every byte sequence \<open>b\<close>, decoding the transport encoding of \<open>b\<close>
  succeeds and yields exactly \<open>b\<close>; hence two byte sequences with the same encoding
  are equal. (\<^verbatim>\<open>btoa\<close> and \<^verbatim>\<open>atob\<close> are the host's, modelled as standard Base64.)
\<close>

theorem base64ToUint8Array_inverts_arrayToBase64:
  "base64ToUint8Array (arrayToBase64 (Uint8Array b)) = Inr b \<and>
   ((arrayToBase64 (Uint8Array b) = arrayToBase64 (Uint8Array b')) = (b = b'))"
proof
  show decode: "base64ToUint8Array (arrayToBase64 (Uint8Array b)) = Inr b" for b
    using base64_roundtrip [of "Uint8Array b"] by simp
  show "(arrayToBase64 (Uint8Array b) = arrayToBase64 (Uint8Array b')) = (b = b')"
  proof
    assume "arrayToBase64 (Uint8Array b) = arrayToBase64 (Uint8Array b')"
    then have "base64ToUint8Array (arrayToBase64 (Uint8Array b))
               = base64ToUint8Array (arrayToBase64 (Uint8Array b'))"
      by simp
    then show "b = b'" by (simp add: decode)
  next
    assume "b = b'"
    then show "arrayToBase64 (Uint8Array b) = arrayToBase64 (Uint8Array b')" by simp
  qed
qed

theorem base64ToUint8Array_inverts_arrayToBase64_witness:
  "arrayToBase64 (Uint8Array [1, 2, 3, 255, 0]) = ''AQID/wA='' \<and>
   base64ToUint8Array ''AQID/wA='' = Inr [1, 2, 3, 255, 0]"
proof -
  have enc: "arrayToBase64 (Uint8Array [1, 2, 3, 255, 0]) = ''AQID/wA=''"
    by (simp add: arrayToBase64_def btoa_def b64_char_def b64_alphabet_def)
  from base64ToUint8Array_inverts_arrayToBase64 [of "[1, 2, 3, 255, 0]" "[]"]
  have "base64ToUint8Array (arrayToBase64 (Uint8Array [1, 2, 3, 255, 0]))
        = Inr [1, 2, 3, 255, 0]"
    by (rule conjunct1)
  with enc show ?thesis by simp
qed

section \<open>Properties of the capture callback\<close>

lemma hasAudio_iff:
  "hasAudio inputData =
   (\<exists>x\<in>set inputData. case x of Finite r \<Rightarrow> 1 / 10 < \<bar>r\<bar> | NaN \<Rightarrow> False | _ \<Rightarrow> True)"
proof -
  have "js_greater (Math_abs x) (Finite (1 / 10)) =
        (case x of Finite r \<Rightarrow> 1 / 10 < \<bar>r\<bar> | NaN \<Rightarrow> False | _ \<Rightarrow> True)" for x
    by (cases x) (simp_all add: js_greater_def)
  then show ?thesis by (simp add: hasAudio_def list_ex_iff)
qed

text \<open>
  Claim C5, as the spec states it: it fails on the revision \<^verbatim>\<open>unnamed/part_000\<close>. While
  capturing, with a listener assigned, a frame whose samples all have an absolute value
  of at most 0.1 is dropped without a notification.
\<close>

theorem onaudioprocess_unconditional_counterexample:
  "isRecording \<lparr>isRecording = True, onAudioData = True\<rparr> \<and>
   onAudioData \<lparr>isRecording = True, onAudioData = True\<rparr> \<and>
   onaudioprocess_part_000 \<lparr>isRecording = True, onAudioData = True\<rparr>
     [Finite 0, Finite (1 / 16), Finite (- (1 / 16))] = None"
  by (simp add: onaudioprocess_part_000_def hasAudio_def js_greater_def)

text \<open>
  Claim C5, amended. While capturing, the callback of \<^verbatim>\<open>js/audioManager.js\<close> converts
  every frame through the codec and calls the listener assigned to
  \<^verbatim>\<open>onAudioData\<close> with the result, whatever the amplitudes; the callback of
  \<^verbatim>\<open>unnamed/part_000\<close> does so exactly when some sample of the frame has an absolute
  value above 0.1, and drops the frame otherwise. While not capturing, both discard the
  frame and call nothing.
\<close>

theorem onaudioprocess_forwarding:
  "(isRecording this \<and> onAudioData this \<longrightarrow>
      onaudioprocess this inputData = Some (floatTo16BitPCM inputData) \<and>
      onaudioprocess_part_000 this inputData =
        (if hasAudio inputData then Some (floatTo16BitPCM inputData) else None)) \<and>
   (\<not> isRecording this \<longrightarrow>
      onaudioprocess this inputData = None \<and>
      onaudioprocess_part_000 this inputData = None) \<and>
   hasAudio inputData =
     (\<exists>x\<in>set inputData. case x of Finite r \<Rightarrow> 1 / 10 < \<bar>r\<bar> | NaN \<Rightarrow> False | _ \<Rightarrow> True)"
proof (intro conjI impI)
  assume "isRecording this \<and> onAudioData this"
  then show "onaudioprocess this inputData = Some (floatTo16BitPCM inputData)"
    and "onaudioprocess_part_000 this inputData =
         (if hasAudio inputData then Some (floatTo16BitPCM inputData) else None)"
    by (simp_all add: onaudioprocess_def onaudioprocess_part_000_def)
next
  assume "\<not> isRecording this"
  then show "onaudioprocess this inputData = None"
    and "onaudioprocess_part_000 this inputData = None"
    by (simp_all add: onaudioprocess_def onaudioprocess_part_000_def)
next
  show "hasAudio inputData =
     (\<exists>x\<in>set inputData. case x of Finite r \<Rightarrow> 1 / 10 < \<bar>r\<bar> | NaN \<Rightarrow> False | _ \<Rightarrow> True)"
    by (rule hasAudio_iff)
qed

theorem onaudioprocess_forwarding_witness:
  "isRecording \<lparr>isRecording = True, onAudioData = True\<rparr> \<and>
   onAudioData \<lparr>isRecording = True, onAudioData = True\<rparr> \<and>
   onaudioprocess \<lparr>isRecording = True, onAudioData = True\<rparr> [Finite 0, Finite (1 / 2)]
     = Some [0, 16383] \<and>
   onaudioprocess_part_000 \<lparr>isRecording = True, onAudioData = True\<rparr>
     [Finite 0, Finite (1 / 2)] = Some [0, 16383] \<and>
   \<not> isRecording \<lparr>isRecording = False, onAudioData = True\<rparr> \<and>
   onaudioprocess \<lparr>isRecording = False, onAudioData = True\<rparr> [Finite 0, Finite (1 / 2)]
     = None \<and>
   onaudioprocess_part_000 \<lparr>isRecording = False, onAudioData = True\<rparr>
     [Finite 0, Finite (1 / 2)] = None"
proof -
  let ?on = "\<lparr>isRecording = True, onAudioData = True\<rparr>"
  let ?off = "\<lparr>isRecording = False, onAudioData = True\<rparr>"
  let ?frame = "[Finite 0, Finite (1 / 2)]"
  have capturing: "isRecording ?on \<and> onAudioData ?on" by simp
  have idle: "\<not> isRecording ?off" by simp
  have loud: "hasAudio ?frame" by (simp add: hasAudio_def js_greater_def)
  have pcm: "floatTo16BitPCM ?frame = [0, 16383]"
    by (simp add: pcm16_of_sample_def clamp_sample_def js_truncate_def)
  note on = onaudioprocess_forwarding [of ?on ?frame, THEN conjunct1, THEN mp, OF capturing]
  note off = onaudioprocess_forwarding [of ?off ?frame, THEN conjunct2, THEN conjunct1,
      THEN mp, OF idle]
  from on loud pcm have
    "onaudioprocess ?on ?frame = Some [0, 16383]"
    "onaudioprocess_part_000 ?on ?frame = Some [0, 16383]"
    by simp_all
  with off capturing idle show ?thesis by simp
qed

section \<open>Properties of the playback queue\<close>

lemma started_append: "started (es @ es') = started es @ started es'"
  by (induction es rule: started.induct) simp_all

lemma enqueued_append: "enqueued (steps @ steps') = enqueued steps @ enqueued steps'"
  by (induction steps rule: enqueued.induct) simp_all

lemma settled_sequential: "settled es \<Longrightarrow> sequential es"
  by (induction es rule: settled.induct) simp_all

lemma settled_ended: "settled es \<Longrightarrow> settled (es @ [RenderStart f, RenderEnd f])"
  by (induction es rule: settled.induct) simp_all

lemma settled_started: "settled es \<Longrightarrow> sequential (es @ [RenderStart f])"
  by (induction es rule: settled.induct) simp_all

lemma settled_butlast_ended:
  assumes "es \<noteq> []" "last es = RenderStart f" "settled (butlast es)"
  shows "settled (es @ [RenderEnd f])"
proof -
  from assms(1,2) have "es = butlast es @ [RenderStart f]"
    by (metis append_butlast_last_id)
  then have eq: "es @ [RenderEnd f] = butlast es @ [RenderStart f, RenderEnd f]" by simp
  show ?thesis by (simp only: eq settled_ended [OF assms(3)])
qed

lemma one_in_flight_idle: "one_in_flight idle"
  by (simp add: one_in_flight_def idle_def)

lemma one_in_flight_stopped:
  "\<not> isPlaying this \<Longrightarrow> rendering this = [] \<Longrightarrow> awaiting this = [] \<Longrightarrow>
   settled (timeline this) \<Longrightarrow> one_in_flight this"
  by (simp add: one_in_flight_def)

lemma one_in_flight_suspended:
  "isPlaying this \<Longrightarrow> rendering this = [] \<Longrightarrow> awaiting this = [f] \<Longrightarrow>
   settled (timeline this) \<Longrightarrow> one_in_flight this"
  by (simp add: one_in_flight_def)

lemma one_in_flight_rendering:
  "isPlaying this \<Longrightarrow> rendering this = [f] \<Longrightarrow> awaiting this = [] \<Longrightarrow>
   timeline this = es @ [RenderStart f] \<Longrightarrow> settled es \<Longrightarrow> one_in_flight this"
  by (simp add: one_in_flight_def)

lemma one_in_flight_cases:
  assumes "one_in_flight this"
  obtains
    (stopped) "\<not> isPlaying this" "rendering this = []" "awaiting this = []"
      "settled (timeline this)"
  | (suspended) f where "isPlaying this" "rendering this = []" "awaiting this = [f]"
      "settled (timeline this)"
  | (rendering) f es where "isPlaying this" "rendering this = [f]" "awaiting this = []"
      "timeline this = es @ [RenderStart f]" "settled es"
proof (cases "isPlaying this")
  case False
  with assms have "rendering this = []" "awaiting this = []" "settled (timeline this)"
    by (auto simp: one_in_flight_def)
  with False stopped show ?thesis by blast
next
  case True
  show ?thesis
  proof (cases "rendering this")
    case Nil
    with True assms have "length (awaiting this) = 1" "settled (timeline this)"
      by (auto simp: one_in_flight_def)
    then obtain f where "awaiting this = [f]"
      by (cases "awaiting this") simp_all
    with True Nil \<open>settled (timeline this)\<close> suspended show ?thesis by blast
  next
    case (Cons f fs)
    with True assms have "fs = []" "awaiting this = []" "timeline this \<noteq> []"
      "last (timeline this) = RenderStart f" "settled (butlast (timeline this))"
      by (auto simp: one_in_flight_def)
    moreover from this have "timeline this = butlast (timeline this) @ [RenderStart f]"
      by (metis append_butlast_last_id)
    ultimately show ?thesis using True Cons rendering by blast
  qed
qed

lemma one_in_flight_render_chunk:
  assumes "rendering this = []" "awaiting this = []" "settled (timeline this)"
    "isPlaying this"
  shows "one_in_flight (render_chunk host audioData this)"
proof (cases host)
  case Starts
  with assms show ?thesis
    by (intro one_in_flight_rendering [where f = audioData and es = "timeline this"])
       simp_all
next
  case Throws
  with assms show ?thesis by (intro one_in_flight_stopped) simp_all
next
  case Awaits
  with assms show ?thesis
    by (intro one_in_flight_suspended [where f = audioData]) simp_all
qed

lemma one_in_flight_playNextAudioChunk:
  assumes "rendering this = []" "awaiting this = []" "settled (timeline this)"
  shows "one_in_flight (playNextAudioChunk host this)"
proof (cases "audioQueue this")
  case Nil
  with assms show ?thesis
    by (simp add: playNextAudioChunk_def one_in_flight_stopped)
next
  case (Cons audioData queue)
  with assms show ?thesis
    by (simp add: playNextAudioChunk_def one_in_flight_render_chunk)
qed

lemma one_in_flight_enqueueAudio:
  assumes "one_in_flight this"
  shows "one_in_flight (enqueueAudio host audioData this)"
  using assms
proof (cases rule: one_in_flight_cases)
  case stopped
  then show ?thesis
    by (simp add: enqueueAudio_def one_in_flight_playNextAudioChunk)
next
  case (suspended f)
  then show ?thesis
    by (simp add: enqueueAudio_def one_in_flight_suspended [where f = f])
next
  case (rendering f es)
  then show ?thesis
    by (simp add: enqueueAudio_def one_in_flight_rendering [where f = f and es = es])
qed

lemma one_in_flight_onended:
  assumes "one_in_flight this"
  shows "one_in_flight (onended host i this)"
  using assms
proof (cases rule: one_in_flight_cases)
  case stopped
  with assms show ?thesis by (simp add: onended_def)
next
  case (suspended f)
  with assms show ?thesis by (simp add: onended_def)
next
  case (rendering f es)
  show ?thesis
  proof (cases "i < length (rendering this)")
    case False
    with assms show ?thesis by (simp add: onended_def)
  next
    case True
    with rendering have "i = 0" by simp
    moreover have "settled (es @ [RenderStart f, RenderEnd f])"
      using rendering(5) by (rule settled_ended)
    ultimately show ?thesis
      using rendering
      by (simp add: onended_def remove_nth_def one_in_flight_playNextAudioChunk)
  qed
qed

lemma one_in_flight_resumed:
  assumes "one_in_flight this"
  shows "one_in_flight (resumed host i this)"
  using assms
proof (cases rule: one_in_flight_cases)
  case stopped
  with assms show ?thesis by (simp add: resumed_def)
next
  case (rendering f es)
  with assms show ?thesis by (simp add: resumed_def)
next
  case (suspended f)
  show ?thesis
  proof (cases "i < length (awaiting this)")
    case False
    with assms show ?thesis by (simp add: resumed_def)
  next
    case True
    with suspended have "i = 0" by simp
    with suspended show ?thesis
      by (simp add: resumed_def remove_nth_def one_in_flight_render_chunk)
  qed
qed

lemma one_in_flight_step:
  assumes "one_in_flight this" and "\<not> is_clear step"
  shows "one_in_flight (playback_next this step)"
  using assms
  by (cases step)
     (simp_all add: one_in_flight_enqueueAudio one_in_flight_onended one_in_flight_resumed)

lemma one_in_flight_run:
  "list_all (\<lambda>step. \<not> is_clear step) steps \<Longrightarrow> one_in_flight (playback_run idle steps)"
proof (induction steps rule: rev_induct)
  case Nil
  show ?case by (simp add: playback_run_def one_in_flight_idle)
next
  case (snoc step steps)
  then show ?case by (simp add: playback_run_def one_in_flight_step)
qed

lemma one_in_flight_no_overlap:
  assumes "one_in_flight this"
  shows "length (rendering this) + length (awaiting this) \<le> 1"
    and "sequential (timeline this)"
  using assms
  by (cases rule: one_in_flight_cases; simp add: settled_sequential settled_started)+

text \<open>One step keeps the order of the chunks and drops a chunk only when it throws.\<close>

lemma subseq_dropped: "subseq (xs @ ys) (xs @ y # ys)"
  by (intro list_emb_append_mono list_emb_Cons subseq_order.order_refl)

lemma lineup_render_chunk:
  assumes "awaiting this = []"
  shows "subseq (lineup (render_chunk host audioData this))
           (started (timeline this) @ audioData # audioQueue this)"
    and "host \<noteq> Throws \<Longrightarrow>
         lineup (render_chunk host audioData this)
         = started (timeline this) @ audioData # audioQueue this"
proof -
  have kept: "lineup (render_chunk host audioData this)
              = started (timeline this) @ audioData # audioQueue this"
    if "host \<noteq> Throws"
    using that assms by (cases host) (simp_all add: lineup_def started_append)
  then show "host \<noteq> Throws \<Longrightarrow>
         lineup (render_chunk host audioData this)
         = started (timeline this) @ audioData # audioQueue this" .
  show "subseq (lineup (render_chunk host audioData this))
           (started (timeline this) @ audioData # audioQueue this)"
  proof (cases "host = Throws")
    case True
    with assms have "lineup (render_chunk host audioData this)
                     = started (timeline this) @ audioQueue this"
      by (simp add: lineup_def)
    then show ?thesis by (simp only: subseq_dropped)
  next
    case False
    then have "lineup (render_chunk host audioData this)
               = started (timeline this) @ audioData # audioQueue this"
      by (rule kept)
    then show ?thesis by (simp only: subseq_order.order_refl)
  qed
qed

lemma lineup_playNextAudioChunk:
  assumes "awaiting this = []"
  shows "subseq (lineup (playNextAudioChunk host this)) (lineup this)"
    and "host \<noteq> Throws \<Longrightarrow> lineup (playNextAudioChunk host this) = lineup this"
proof -
  show "subseq (lineup (playNextAudioChunk host this)) (lineup this)"
  proof (cases "audioQueue this")
    case Nil
    then show ?thesis by (simp add: playNextAudioChunk_def lineup_def)
  next
    case (Cons audioData queue)
    with assms
      lineup_render_chunk(1) [of "this\<lparr>isPlaying := True, audioQueue := queue\<rparr>" host audioData]
    show ?thesis by (simp add: playNextAudioChunk_def lineup_def)
  qed
  show "lineup (playNextAudioChunk host this) = lineup this" if "host \<noteq> Throws"
  proof (cases "audioQueue this")
    case Nil
    then show ?thesis by (simp add: playNextAudioChunk_def lineup_def)
  next
    case (Cons audioData queue)
    with assms that
      lineup_render_chunk(2) [of "this\<lparr>isPlaying := True, audioQueue := queue\<rparr>" host audioData]
    show ?thesis by (simp add: playNextAudioChunk_def lineup_def)
  qed
qed

lemma lineup_step:
  assumes inv: "one_in_flight this" and "\<not> is_clear step"
  shows "subseq (lineup (playback_next this step)) (lineup this @ enqueued [step])"
    and "\<not> step_throws step \<Longrightarrow>
         lineup (playback_next this step) = lineup this @ enqueued [step]"
proof -
  have both: "subseq (lineup (playback_next this step)) (lineup this @ enqueued [step]) \<and>
    (\<not> step_throws step \<longrightarrow>
       lineup (playback_next this step) = lineup this @ enqueued [step])"
  proof (cases step)
    case (Enqueue audioData host)
    let ?this1 = "this\<lparr>audioQueue := audioQueue this @ [audioData]\<rparr>"
    have line1: "lineup ?this1 = lineup this @ [audioData]" by (simp add: lineup_def)
    show ?thesis
    proof (cases "isPlaying this")
      case True
      with Enqueue line1 show ?thesis by (simp add: enqueueAudio_def)
    next
      case False
      with inv have "awaiting ?this1 = []"
        by (cases rule: one_in_flight_cases) simp_all
      from lineup_playNextAudioChunk [OF this, of host] False Enqueue line1
      show ?thesis by (simp add: enqueueAudio_def)
    qed
  next
    case (Ended i host)
    show ?thesis
    proof (cases "i < length (rendering this)")
      case False
      with Ended show ?thesis by (simp add: onended_def)
    next
      case True
      let ?this1 = "this\<lparr>rendering := remove_nth i (rendering this),
                          timeline := timeline this @ [RenderEnd (rendering this ! i)]\<rparr>"
      from inv True have "awaiting ?this1 = []"
        by (cases rule: one_in_flight_cases) simp_all
      moreover have "lineup ?this1 = lineup this" by (simp add: lineup_def started_append)
      ultimately show ?thesis
        using lineup_playNextAudioChunk [of ?this1 host] True Ended
        by (simp add: onended_def)
    qed
  next
    case (Resumed i host)
    show ?thesis
    proof (cases "i < length (awaiting this)")
      case False
      with Resumed show ?thesis by (simp add: resumed_def)
    next
      case True
      with inv obtain f where f: "awaiting this = [f]" "i = 0"
        by (cases rule: one_in_flight_cases) simp_all
      let ?this1 = "this\<lparr>awaiting := []\<rparr>"
      have "lineup this = started (timeline ?this1) @ f # audioQueue ?this1"
        using f by (simp add: lineup_def)
      with lineup_render_chunk [of ?this1 host f] f Resumed show ?thesis
        by (simp add: resumed_def remove_nth_def)
    qed
  next
    case Clear
    with assms(2) show ?thesis by simp
  qed
  from both show "subseq (lineup (playback_next this step)) (lineup this @ enqueued [step])"
    by (rule conjunct1)
  from both show "lineup (playback_next this step) = lineup this @ enqueued [step]"
    if "\<not> step_throws step" using that by simp
qed

lemma lineup_run:
  assumes "list_all (\<lambda>step. \<not> is_clear step) steps"
  shows "subseq (lineup (playback_run idle steps)) (enqueued steps)"
    and "list_all (\<lambda>step. \<not> step_throws step) steps \<Longrightarrow>
         lineup (playback_run idle steps) = enqueued steps"
proof -
  have "subseq (lineup (playback_run idle steps)) (enqueued steps) \<and>
        (list_all (\<lambda>step. \<not> step_throws step) steps \<longrightarrow>
         lineup (playback_run idle steps) = enqueued steps)"
    using assms
  proof (induction steps rule: rev_induct)
    case Nil
    show ?case by (simp add: playback_run_def lineup_def idle_def)
  next
    case (snoc step steps)
    let ?s = "playback_run idle steps"
    from snoc.prems have no_clear: "list_all (\<lambda>step. \<not> is_clear step) steps"
      and step: "\<not> is_clear step" by simp_all
    have inv: "one_in_flight ?s" using no_clear by (rule one_in_flight_run)
    have run: "playback_run idle (steps @ [step]) = playback_next ?s step"
      by (simp add: playback_run_def)
    have "subseq (lineup (playback_next ?s step)) (lineup ?s @ enqueued [step])"
      using inv step by (rule lineup_step(1))
    also have "subseq (lineup ?s @ enqueued [step]) (enqueued steps @ enqueued [step])"
      using snoc.IH [OF no_clear] by (simp add: list_emb_append_mono)
    finally have part1: "subseq (lineup (playback_run idle (steps @ [step])))
                           (enqueued (steps @ [step]))"
      by (simp add: run enqueued_append)
    have part2: "lineup (playback_run idle (steps @ [step])) = enqueued (steps @ [step])"
      if "list_all (\<lambda>step. \<not> step_throws step) (steps @ [step])"
    proof -
      from that have "lineup ?s = enqueued steps" "\<not> step_throws step"
        using snoc.IH [OF no_clear] by simp_all
      with lineup_step(2) [OF inv step] show ?thesis
        by (simp add: run enqueued_append)
    qed
    from part1 part2 show ?case by blast
  qed
  then show "subseq (lineup (playback_run idle steps)) (enqueued steps)"
    and "list_all (\<lambda>step. \<not> step_throws step) steps \<Longrightarrow>
         lineup (playback_run idle steps) = enqueued steps"
    by simp_all
qed

text \<open>
  Claim C3, as the spec states it for every state reachable under enqueue,
  render-complete and clear: it fails. \<^verbatim>\<open>clearAudioQueue\<close> lowers \<^verbatim>\<open>isPlaying\<close> and
  leaves the source that is rendering untouched, so a chunk enqueued next starts at once
  and the two renders overlap.
\<close>

theorem playback_overlap_after_clear_counterexample:
  "rendering (playback_run idle [Enqueue (1 :: nat) Starts, Clear, Enqueue 2 Starts]) = [1, 2] \<and>
   timeline (playback_run idle [Enqueue (1 :: nat) Starts, Clear, Enqueue 2 Starts])
     = [RenderStart 1, RenderStart 2] \<and>
   \<not> sequential (timeline (playback_run idle [Enqueue (1 :: nat) Starts, Clear, Enqueue 2 Starts]))"
  by (simp add: playback_run_def idle_def enqueueAudio_def playNextAudioChunk_def
      clearAudioQueue_def)

text \<open>
  Claim C3, amended. Three chunks enqueued while the queue is idle are rendered in the
  order they were enqueued, each render starting in the completion callback of the one
  before. In every state reached from the idle queue by enqueue, render-complete and
  resume steps, without \<^verbatim>\<open>clearAudioQueue\<close>, the timeline is sequential (no render
  starts before the previous one has ended), at most one activation is in flight, and the
  chunks rendered so far are, in order, among those enqueued; when moreover no
  activation throws, the chunks rendered, suspended and queued are exactly the chunks
  enqueued, in their order.
\<close>

theorem playback_fifo_without_overlap:
  "timeline (playback_run idle
      [Enqueue f1 Starts, Enqueue f2 h2, Enqueue f3 h3,
       Ended 0 Starts, Ended 0 Starts, Ended 0 h])
     = [RenderStart f1, RenderEnd f1, RenderStart f2, RenderEnd f2,
        RenderStart f3, RenderEnd f3] \<and>
   (list_all (\<lambda>step. \<not> is_clear step) steps \<longrightarrow>
      sequential (timeline (playback_run idle steps)) \<and>
      length (rendering (playback_run idle steps))
        + length (awaiting (playback_run idle steps)) \<le> 1 \<and>
      subseq (started (timeline (playback_run idle steps))) (enqueued steps) \<and>
      (list_all (\<lambda>step. \<not> step_throws step) steps \<longrightarrow>
         started (timeline (playback_run idle steps))
           @ awaiting (playback_run idle steps) @ audioQueue (playback_run idle steps)
         = enqueued steps))"
proof (intro conjI impI)
  show "timeline (playback_run idle
      [Enqueue f1 Starts, Enqueue f2 h2, Enqueue f3 h3,
       Ended 0 Starts, Ended 0 Starts, Ended 0 h])
     = [RenderStart f1, RenderEnd f1, RenderStart f2, RenderEnd f2,
        RenderStart f3, RenderEnd f3]"
    by (simp add: playback_run_def idle_def enqueueAudio_def playNextAudioChunk_def
        onended_def remove_nth_def)
next
  assume no_clear: "list_all (\<lambda>step. \<not> is_clear step) steps"
  then have inv: "one_in_flight (playback_run idle steps)" by (rule one_in_flight_run)
  from inv show "sequential (timeline (playback_run idle steps))"
    by (rule one_in_flight_no_overlap(2))
  from inv show "length (rendering (playback_run idle steps))
        + length (awaiting (playback_run idle steps)) \<le> 1"
    by (rule one_in_flight_no_overlap(1))
  have "subseq (started (timeline (playback_run idle steps)))
          (lineup (playback_run idle steps))"
    unfolding lineup_def by (intro list_emb_prefix subseq_order.order_refl)
  also have "subseq (lineup (playback_run idle steps)) (enqueued steps)"
    using no_clear by (rule lineup_run(1))
  finally show "subseq (started (timeline (playback_run idle steps))) (enqueued steps)" .
  assume "list_all (\<lambda>step. \<not> step_throws step) steps"
  with lineup_run(2) [OF no_clear]
  show "started (timeline (playback_run idle steps))
           @ awaiting (playback_run idle steps) @ audioQueue (playback_run idle steps)
         = enqueued steps"
    by (simp add: lineup_def)
qed

theorem playback_fifo_without_overlap_witness:
  "list_all (\<lambda>step. \<not> is_clear step)
     [Enqueue (1 :: nat) Starts, Enqueue 2 Starts, Enqueue 3 Starts, Ended 0 Starts] \<and>
   list_all (\<lambda>step. \<not> step_throws step)
     [Enqueue (1 :: nat) Starts, Enqueue 2 Starts, Enqueue 3 Starts, Ended 0 Starts] \<and>
   timeline (playback_run idle
     [Enqueue (1 :: nat) Starts, Enqueue 2 Starts, Enqueue 3 Starts, Ended 0 Starts])
     = [RenderStart 1, RenderEnd 1, RenderStart 2] \<and>
   sequential (timeline (playback_run idle
     [Enqueue (1 :: nat) Starts, Enqueue 2 Starts, Enqueue 3 Starts, Ended 0 Starts])) \<and>
   started (timeline (playback_run idle
       [Enqueue (1 :: nat) Starts, Enqueue 2 Starts, Enqueue 3 Starts, Ended 0 Starts]))
     @ awaiting (playback_run idle
       [Enqueue (1 :: nat) Starts, Enqueue 2 Starts, Enqueue 3 Starts, Ended 0 Starts])
     @ audioQueue (playback_run idle
       [Enqueue (1 :: nat) Starts, Enqueue 2 Starts, Enqueue 3 Starts, Ended 0 Starts])
     = [1, 2, 3]"
proof -
  let ?steps = "[Enqueue (1 :: nat) Starts, Enqueue 2 Starts, Enqueue 3 Starts, Ended 0 Starts]"
  have no_clear: "list_all (\<lambda>step. \<not> is_clear step) ?steps" by simp
  have no_throw: "list_all (\<lambda>step. \<not> step_throws step) ?steps" by simp
  have run: "timeline (playback_run idle ?steps) = [RenderStart 1, RenderEnd 1, RenderStart 2]"
    by (simp add: playback_run_def idle_def enqueueAudio_def playNextAudioChunk_def
        onended_def remove_nth_def)
  note general = playback_fifo_without_overlap [where steps = ?steps and ?'a = nat,
      THEN conjunct2, THEN mp, OF no_clear]
  note seq = general [THEN conjunct1]
  note fifo = general [THEN conjunct2, THEN conjunct2, THEN conjunct2, THEN mp, OF no_throw]
  have "enqueued ?steps = [1, 2, 3]" by simp
  with fifo have order: "started (timeline (playback_run idle ?steps))
     @ awaiting (playback_run idle ?steps) @ audioQueue (playback_run idle ?steps)
     = [1, 2, 3]"
    by simp
  show ?thesis
    by (intro conjI) (rule no_clear, rule no_throw, rule run, rule seq, rule order)
qed

section \<open>Properties of \<^verbatim>\<open>WebSocketManager\<close>\<close>

lemma sent_append: "sent (es @ es') = sent es @ sent es'"
  by (induction es rule: sent.induct) simp_all

lemma timeouts_append: "timeouts (es @ es') = timeouts es @ timeouts es'"
  by (induction es rule: timeouts.induct) simp_all

lemma disconnect_calls_append:
  "disconnect_calls (es @ es') = disconnect_calls es + disconnect_calls es'"
  by (induction es rule: disconnect_calls.induct) simp_all

lemma commits_append: "commits (es @ es') = commits es @ commits es'"
  by (simp add: commits_def sent_append)

subsection \<open>\<^verbatim>\<open>sendMessage\<close>\<close>

lemma sendMessage_delivers:
  assumes "isConnected this" "socket this \<noteq> None" "\<not> send_throws h"
  shows "sendMessage h \<lparr>payload = body, event_id = None\<rparr> this =
         (ReturnedId (EventId (now h) (eventId this + 1)),
          this\<lparr>eventId := eventId this + 1,
               effects := effects this @
                 [Sent \<lparr>payload = body, event_id = Some (EventId (now h) (eventId this + 1))\<rparr>,
                  Logged LogInfo]\<rparr>)"
  using assms by (simp add: sendMessage_def emit_def)

lemma sendMessage_throws:
  assumes "isConnected this" "socket this \<noteq> None" "send_throws h"
  shows "sendMessage h \<lparr>payload = body, event_id = None\<rparr> this =
         (ReturnedNull,
          this\<lparr>eventId := eventId this + 1, effects := effects this @ [Logged LogError]\<rparr>)"
  using assms by (simp add: sendMessage_def emit_def)

lemma sendMessage_not_connected:
  assumes "\<not> isConnected this \<or> socket this = None"
  shows "sendMessage h message this =
         (ReturnedUndefined, this\<lparr>effects := effects this @ [Logged LogError]\<rparr>)"
  using assms by (auto simp: sendMessage_def emit_def)

lemma sendMessage_frame:
  "pendingAudioBuffers (snd (sendMessage h message this)) = pendingAudioBuffers this"
  "isConnected (snd (sendMessage h message this)) = isConnected this"
  "socket (snd (sendMessage h message this)) = socket this"
  "reconnectAttempts (snd (sendMessage h message this)) = reconnectAttempts this"
  "sessionId (snd (sendMessage h message this)) = sessionId this"
  by (simp_all add: sendMessage_def emit_def split: option.splits)

lemma sendMessage_effects:
  "\<exists>es. effects (snd (sendMessage h message this)) = effects this @ es \<and>
        (\<forall>m \<in> set (sent es). payload m = payload message)"
  by (simp add: sendMessage_def emit_def split: option.splits)

subsection \<open>The pending counter\<close>

lemma appendAudioBuffer_counts:
  assumes "isConnected this"
  shows "pendingAudioBuffers (snd (appendAudioBuffer h audioData this))
         = pendingAudioBuffers this + 1"
    and "isConnected (snd (appendAudioBuffer h audioData this))"
    and "socket (snd (appendAudioBuffer h audioData this)) = socket this"
    and "commits (effects (snd (appendAudioBuffer h audioData this)))
         = commits (effects this)"
proof -
  let ?message = "\<lparr>payload = InputAudioBufferAppend (arrayToBase64 audioData), event_id = None\<rparr>"
  let ?this1 = "this\<lparr>pendingAudioBuffers := pendingAudioBuffers this + 1\<rparr>"
  have eq: "appendAudioBuffer h audioData this = sendMessage h ?message ?this1"
    using assms by (simp add: appendAudioBuffer_def)
  show "pendingAudioBuffers (snd (appendAudioBuffer h audioData this))
         = pendingAudioBuffers this + 1"
    and "isConnected (snd (appendAudioBuffer h audioData this))"
    and "socket (snd (appendAudioBuffer h audioData this)) = socket this"
    using assms by (simp_all add: eq sendMessage_frame)
  from sendMessage_effects [of h ?message ?this1]
  obtain es where es: "effects (snd (sendMessage h ?message ?this1)) = effects this @ es"
    "\<forall>m \<in> set (sent es). payload m = InputAudioBufferAppend (arrayToBase64 audioData)"
    by auto
  then have "commits es = []" by (auto simp: commits_def filter_empty_conv)
  with es show "commits (effects (snd (appendAudioBuffer h audioData this)))
         = commits (effects this)"
    by (simp add: eq commits_append)
qed

lemma append_all_counts:
  assumes "isConnected this"
  shows "pendingAudioBuffers (append_all frames this)
         = pendingAudioBuffers this + int (length frames)"
    and "isConnected (append_all frames this)"
    and "socket (append_all frames this) = socket this"
    and "commits (effects (append_all frames this)) = commits (effects this)"
proof -
  have "pendingAudioBuffers (append_all frames this)
          = pendingAudioBuffers this + int (length frames) \<and>
        isConnected (append_all frames this) \<and>
        socket (append_all frames this) = socket this \<and>
        commits (effects (append_all frames this)) = commits (effects this)"
    using assms
  proof (induction frames arbitrary: this)
    case Nil
    then show ?case by simp
  next
    case (Cons frame frames)
    obtain h audioData where frame: "frame = (h, audioData)" by (cases frame)
    let ?next = "snd (appendAudioBuffer h audioData this)"
    from appendAudioBuffer_counts [OF Cons.prems, of h audioData] Cons.IH [of ?next]
    show ?case by (simp add: frame)
  qed
  then show "pendingAudioBuffers (append_all frames this)
         = pendingAudioBuffers this + int (length frames)"
    and "isConnected (append_all frames this)"
    and "socket (append_all frames this) = socket this"
    and "commits (effects (append_all frames this)) = commits (effects this)"
    by simp_all
qed

lemma commitAudioBuffer_sends:
  assumes "isConnected this" "socket this \<noteq> None" "\<not> send_throws h"
    "0 < pendingAudioBuffers this"
  shows "commitAudioBuffer h this =
         (ReturnedId (EventId (now h) (eventId this + 1)),
          this\<lparr>eventId := eventId this + 1, pendingAudioBuffers := 0,
               effects := effects this @
                 [Logged LogInfo,
                  Sent \<lparr>payload = InputAudioBufferCommit,
                        event_id = Some (EventId (now h) (eventId this + 1))\<rparr>,
                  Logged LogInfo]\<rparr>)"
  using assms by (simp add: commitAudioBuffer_def sendMessage_def emit_def)

lemma commitAudioBuffer_nothing_pending:
  assumes "pendingAudioBuffers this \<le> 0"
  shows "commitAudioBuffer h this =
         (ReturnedNull, this\<lparr>effects := effects this @ [Logged LogWarning]\<rparr>)"
  using assms by (simp add: commitAudioBuffer_def emit_def)

text \<open>
  Claim C1. Take a manager that is connected (the flag is set and the socket is there),
  with a pending counter that is not negative. After any \<open>N \<ge> 1\<close> calls of
  \<^verbatim>\<open>appendAudioBuffer\<close>, whether their sends succeed or not, the counter has grown by
  \<open>N\<close>, and one call of \<^verbatim>\<open>commitAudioBuffer\<close> whose send the socket accepts sends
  exactly one commit message and leaves the counter at 0. In any state with the counter
  at 0, \<^verbatim>\<open>commitAudioBuffer\<close> returns \<^verbatim>\<open>null\<close>, logs a warning, sends nothing and
  leaves the counter at 0.
\<close>

theorem commitAudioBuffer_after_appends:
  "(isConnected this \<and> socket this \<noteq> None \<and> 0 \<le> pendingAudioBuffers this \<and>
    frames \<noteq> [] \<and> \<not> send_throws h \<longrightarrow>
      pendingAudioBuffers (append_all frames this)
        = pendingAudioBuffers this + int (length frames) \<and>
      commits (effects (snd (commitAudioBuffer h (append_all frames this))))
        = commits (effects this) @
          [\<lparr>payload = InputAudioBufferCommit,
            event_id = Some (EventId (now h) (eventId (append_all frames this) + 1))\<rparr>] \<and>
      pendingAudioBuffers (snd (commitAudioBuffer h (append_all frames this))) = 0) \<and>
   (pendingAudioBuffers this = 0 \<longrightarrow>
      commitAudioBuffer h this
        = (ReturnedNull, this\<lparr>effects := effects this @ [Logged LogWarning]\<rparr>) \<and>
      sent (effects (snd (commitAudioBuffer h this))) = sent (effects this) \<and>
      pendingAudioBuffers (snd (commitAudioBuffer h this)) = 0)"
proof (intro conjI impI)
  assume hyp: "isConnected this \<and> socket this \<noteq> None \<and> 0 \<le> pendingAudioBuffers this \<and>
    frames \<noteq> [] \<and> \<not> send_throws h"
  let ?after = "append_all frames this"
  from hyp have connected: "isConnected this" by simp
  note after = append_all_counts [OF connected, of frames]
  show count: "pendingAudioBuffers ?after = pendingAudioBuffers this + int (length frames)"
    by (rule after(1))
  from hyp have "0 < int (length frames)" by simp
  with hyp count have positive: "0 < pendingAudioBuffers ?after" by linarith
  from hyp after have ready: "isConnected ?after" "socket ?after \<noteq> None" "\<not> send_throws h"
    by simp_all
  note commit = commitAudioBuffer_sends [OF ready positive]
  show "commits (effects (snd (commitAudioBuffer h ?after)))
        = commits (effects this) @
          [\<lparr>payload = InputAudioBufferCommit,
            event_id = Some (EventId (now h) (eventId ?after + 1))\<rparr>]"
    using after(4) by (simp add: commit commits_append) (simp add: commits_def)
  show "pendingAudioBuffers (snd (commitAudioBuffer h ?after)) = 0"
    by (simp add: commit)
next
  assume zero: "pendingAudioBuffers this = 0"
  then have none: "commitAudioBuffer h this
        = (ReturnedNull, this\<lparr>effects := effects this @ [Logged LogWarning]\<rparr>)"
    by (simp add: commitAudioBuffer_nothing_pending)
  then show "commitAudioBuffer h this
        = (ReturnedNull, this\<lparr>effects := effects this @ [Logged LogWarning]\<rparr>)" .
  from none show "sent (effects (snd (commitAudioBuffer h this))) = sent (effects this)"
    by (simp add: sent_append)
  from none zero show "pendingAudioBuffers (snd (commitAudioBuffer h this)) = 0"
    by simp
qed

theorem commitAudioBuffer_after_appends_witness:
  "(let h = \<lparr>now = 7, send_throws = False, open_throws = False\<rparr>;
        failing = \<lparr>now = 8, send_throws = True, open_throws = False\<rparr>;
        this = (new_manager ''ws://localhost:8080/'' True)
                 \<lparr>socket := Some (WebSocket ''ws://localhost:8080/''), isConnected := True\<rparr>;
        frames = [(h, Int16Array [1, 2]), (failing, Int16Array [3])]
    in (isConnected this \<and> socket this \<noteq> None \<and> 0 \<le> pendingAudioBuffers this \<and>
        frames \<noteq> [] \<and> \<not> send_throws h) \<and>
       pendingAudioBuffers (append_all frames this) = 2 \<and>
       commits (effects (snd (commitAudioBuffer h (append_all frames this))))
         = [\<lparr>payload = InputAudioBufferCommit, event_id = Some (EventId 7 3)\<rparr>] \<and>
       pendingAudioBuffers (snd (commitAudioBuffer h (append_all frames this))) = 0 \<and>
       pendingAudioBuffers (new_manager ''ws://localhost:8080/'' True) = 0 \<and>
       fst (commitAudioBuffer h (new_manager ''ws://localhost:8080/'' True)) = ReturnedNull \<and>
       sent (effects (snd (commitAudioBuffer h (new_manager ''ws://localhost:8080/'' True))))
         = [])"
proof -
  let ?h = "\<lparr>now = 7, send_throws = False, open_throws = False\<rparr>"
  let ?failing = "\<lparr>now = 8, send_throws = True, open_throws = False\<rparr>"
  let ?fresh = "new_manager ''ws://localhost:8080/'' True"
  let ?m = "?fresh\<lparr>socket := Some (WebSocket ''ws://localhost:8080/''),
                       isConnected := True\<rparr>"
  let ?frames = "[(?h, Int16Array [1, 2]), (?failing, Int16Array [3])]"
  have hyp: "isConnected ?m \<and> socket ?m \<noteq> None \<and> 0 \<le> pendingAudioBuffers ?m \<and>
        ?frames \<noteq> [] \<and> \<not> send_throws ?h"
    by (simp add: new_manager_def)
  have zero: "pendingAudioBuffers ?fresh = 0" by (simp add: new_manager_def)
  note first = commitAudioBuffer_after_appends [of ?m ?frames ?h, THEN conjunct1, THEN mp,
      OF hyp]
  note second = commitAudioBuffer_after_appends [of ?fresh ?frames ?h, THEN conjunct2, THEN mp,
      OF zero]
  have start: "pendingAudioBuffers ?m = 0" "commits (effects ?m) = []"
    by (simp_all add: new_manager_def commits_def)
  have ids: "eventId (append_all ?frames ?m) = 2"
    by (simp add: new_manager_def appendAudioBuffer_def sendMessage_def emit_def)
  have a1: "pendingAudioBuffers (append_all ?frames ?m) = 2"
    using first [THEN conjunct1] start by simp
  have a2: "commits (effects (snd (commitAudioBuffer ?h (append_all ?frames ?m))))
         = [\<lparr>payload = InputAudioBufferCommit, event_id = Some (EventId 7 3)\<rparr>]"
    using first [THEN conjunct2, THEN conjunct1] start ids by simp
  have a3: "pendingAudioBuffers (snd (commitAudioBuffer ?h (append_all ?frames ?m))) = 0"
    using first [THEN conjunct2, THEN conjunct2] .
  have b1: "fst (commitAudioBuffer ?h ?fresh) = ReturnedNull"
    using second [THEN conjunct1] by simp
  have b2: "sent (effects (snd (commitAudioBuffer ?h ?fresh))) = []"
    using second [THEN conjunct2, THEN conjunct1] by (simp add: new_manager_def)
  from hyp a1 a2 a3 zero b1 b2 show ?thesis
    unfolding Let_def by (elim conjE, intro conjI)
qed

text \<open>
  Claim C10. While connected, \<^verbatim>\<open>appendAudioBuffer\<close> increments the pending counter
  and only then calls \<^verbatim>\<open>sendMessage\<close>, on the state that already holds the new count;
  the count stays incremented whatever \<^verbatim>\<open>sendMessage\<close> does. When the send throws,
  \<^verbatim>\<open>null\<close> is returned and no message has been sent, and the counter is incremented
  all the same: it counts the appends attempted while connected. When not connected the
  counter is not touched.
\<close>

theorem appendAudioBuffer_counts_attempts:
  "(isConnected this \<longrightarrow>
      appendAudioBuffer h audioData this
        = sendMessage h
            \<lparr>payload = InputAudioBufferAppend (arrayToBase64 audioData), event_id = None\<rparr>
            (this\<lparr>pendingAudioBuffers := pendingAudioBuffers this + 1\<rparr>) \<and>
      pendingAudioBuffers (snd (appendAudioBuffer h audioData this))
        = pendingAudioBuffers this + 1 \<and>
      (socket this \<noteq> None \<and> send_throws h \<longrightarrow>
         fst (appendAudioBuffer h audioData this) = ReturnedNull \<and>
         sent (effects (snd (appendAudioBuffer h audioData this))) = sent (effects this))) \<and>
   (\<not> isConnected this \<longrightarrow>
      appendAudioBuffer h audioData this
        = (ReturnedNull, this\<lparr>effects := effects this @ [Logged LogWarning]\<rparr>))"
proof (intro conjI impI)
  assume connected: "isConnected this"
  let ?message = "\<lparr>payload = InputAudioBufferAppend (arrayToBase64 audioData), event_id = None\<rparr>"
  let ?this1 = "this\<lparr>pendingAudioBuffers := pendingAudioBuffers this + 1\<rparr>"
  show eq: "appendAudioBuffer h audioData this = sendMessage h ?message ?this1"
    using connected by (simp add: appendAudioBuffer_def)
  show "pendingAudioBuffers (snd (appendAudioBuffer h audioData this))
        = pendingAudioBuffers this + 1"
    using connected by (rule appendAudioBuffer_counts(1))
  assume "socket this \<noteq> None \<and> send_throws h"
  with connected have "isConnected ?this1" "socket ?this1 \<noteq> None" "send_throws h"
    by simp_all
  note thrown = sendMessage_throws [OF this, of "InputAudioBufferAppend (arrayToBase64 audioData)"]
  show "fst (appendAudioBuffer h audioData this) = ReturnedNull"
    by (simp add: eq thrown)
  show "sent (effects (snd (appendAudioBuffer h audioData this))) = sent (effects this)"
    by (simp add: eq thrown sent_append)
next
  assume "\<not> isConnected this"
  then show "appendAudioBuffer h audioData this
        = (ReturnedNull, this\<lparr>effects := effects this @ [Logged LogWarning]\<rparr>)"
    by (simp add: appendAudioBuffer_def emit_def)
qed

theorem appendAudioBuffer_counts_attempts_witness:
  "(let failing = \<lparr>now = 8, send_throws = True, open_throws = False\<rparr>;
        this = (new_manager ''ws://localhost:8080/'' True)
                 \<lparr>socket := Some (WebSocket ''ws://localhost:8080/''), isConnected := True\<rparr>
    in isConnected this \<and> (socket this \<noteq> None \<and> send_throws failing) \<and>
       pendingAudioBuffers this = 0 \<and>
       pendingAudioBuffers (snd (appendAudioBuffer failing (Int16Array [3]) this)) = 1 \<and>
       fst (appendAudioBuffer failing (Int16Array [3]) this) = ReturnedNull \<and>
       sent (effects (snd (appendAudioBuffer failing (Int16Array [3]) this))) = [])"
proof -
  let ?failing = "\<lparr>now = 8, send_throws = True, open_throws = False\<rparr>"
  let ?m = "(new_manager ''ws://localhost:8080/'' True)
                 \<lparr>socket := Some (WebSocket ''ws://localhost:8080/''), isConnected := True\<rparr>"
  have connected: "isConnected ?m" by simp
  have throwing: "socket ?m \<noteq> None \<and> send_throws ?failing" by simp
  have start: "pendingAudioBuffers ?m = 0" "sent (effects ?m) = []"
    by (simp_all add: new_manager_def)
  note general = appendAudioBuffer_counts_attempts [of ?m ?failing "Int16Array [3]",
      THEN conjunct1, THEN mp, OF connected]
  note thrown = general [THEN conjunct2, THEN conjunct2, THEN mp, OF throwing]
  have a: "pendingAudioBuffers (snd (appendAudioBuffer ?failing (Int16Array [3]) ?m)) = 1"
    using general [THEN conjunct2, THEN conjunct1] start by simp
  have b1: "fst (appendAudioBuffer ?failing (Int16Array [3]) ?m) = ReturnedNull"
    using thrown [THEN conjunct1] .
  have b2: "sent (effects (snd (appendAudioBuffer ?failing (Int16Array [3]) ?m))) = []"
    using thrown [THEN conjunct2] start by simp
  from connected throwing start(1) a b1 b2 show ?thesis
    unfolding Let_def by (elim conjE, intro conjI)
qed

subsection \<open>Effects are only ever appended\<close>

lemma prefix_emit: "prefix es (effects this) \<Longrightarrow> prefix es (effects (emit e this))"
  by (simp add: emit_def prefix_def) auto

lemma prefix_updateConnectionStatus:
  "prefix es (effects this) \<Longrightarrow> prefix es (effects (updateConnectionStatus status this))"
  by (simp add: updateConnectionStatus_def prefix_emit)

lemma prefix_sendMessage:
  "prefix es (effects this) \<Longrightarrow> prefix es (effects (snd (sendMessage h message this)))"
  by (simp add: sendMessage_def prefix_emit split: option.splits)

lemma prefix_connect: "prefix es (effects this) \<Longrightarrow> prefix es (effects (connect h this))"
  by (simp add: connect_def Let_def prefix_emit prefix_updateConnectionStatus)

lemma prefix_disconnect: "prefix es (effects this) \<Longrightarrow> prefix es (effects (disconnect this))"
  by (simp add: disconnect_def Let_def prefix_emit prefix_updateConnectionStatus)

lemma prefix_handleOpen: "prefix es (effects this) \<Longrightarrow> prefix es (effects (handleOpen this))"
  by (simp add: handleOpen_def Let_def prefix_emit prefix_updateConnectionStatus)

lemma prefix_attemptReconnect:
  "prefix es (effects this) \<Longrightarrow> prefix es (effects (attemptReconnect this))"
  by (simp add: attemptReconnect_def Let_def prefix_emit)

lemma prefix_handleClose:
  "prefix es (effects this) \<Longrightarrow> prefix es (effects (handleClose code this))"
  by (simp add: handleClose_def Let_def prefix_emit prefix_updateConnectionStatus
      prefix_attemptReconnect)

lemma prefix_retry_elapsed:
  "prefix es (effects this) \<Longrightarrow> prefix es (effects (retry_elapsed h i this))"
  by (simp add: retry_elapsed_def Let_def prefix_connect)

lemma prefix_handleMessage:
  "prefix es (effects this) \<Longrightarrow> prefix es (effects (handleMessage h data this))"
  by (cases "(h, data, this)" rule: handleMessage.cases)
     (simp_all add: parse_failed_def handleError_def handleSessionCreated_def
        handleConversationCreated_def updateSession_def Let_def prefix_emit
        prefix_sendMessage split: option.splits sum.splits)

lemma prefix_manager_step:
  "prefix es (effects this) \<Longrightarrow> prefix es (effects (manager_step this step))"
  by (cases "(this, step)" rule: manager_step.cases)
     (simp_all add: prefix_connect prefix_disconnect prefix_handleOpen prefix_handleClose
        handleError_def prefix_emit prefix_handleMessage prefix_retry_elapsed
        prefix_sendMessage updateSession_def appendAudioBuffer_def commitAudioBuffer_def
        clearAudioBuffer_def createResponse_def cancelResponse_def Let_def
        split: option.splits)

lemma prefix_manager_run:
  "prefix es (effects this) \<Longrightarrow> prefix es (effects (manager_run this events))"
  unfolding manager_run_def
  by (induction events arbitrary: this) (simp_all add: prefix_manager_step)

subsection \<open>The handshake\<close>

lemma handleSessionCreated_sends:
  assumes "isConnected this" "socket this \<noteq> None" "\<not> send_throws h"
  shows "handleMessage h (SessionCreated (Some session_id)) this =
         this\<lparr>eventId := eventId this + 1, sessionId := session_id,
              effects := effects this @
                [Logged LogInfo, Logged LogSuccess,
                 Sent \<lparr>payload = SessionUpdate session_defaults,
                       event_id = Some (EventId (now h) (eventId this + 1))\<rparr>,
                 Logged LogInfo]\<rparr>"
  using assms
  by (simp add: handleSessionCreated_def updateSession_def sendMessage_def emit_def)

subsection \<open>The reconnect counter\<close>

lemma reconnectAttempts_emit [simp]: "reconnectAttempts (emit e this) = reconnectAttempts this"
  by (simp add: emit_def)

lemma reconnectAttempts_updateConnectionStatus [simp]:
  "reconnectAttempts (updateConnectionStatus status this) = reconnectAttempts this"
  by (simp add: updateConnectionStatus_def)

lemma reconnectAttempts_connect: "reconnectAttempts (connect h this) = reconnectAttempts this"
  by (simp add: connect_def Let_def)

lemma reconnectAttempts_disconnect: "reconnectAttempts (disconnect this) = reconnectAttempts this"
  by (simp add: disconnect_def Let_def)

lemma reconnectAttempts_handleOpen: "reconnectAttempts (handleOpen this) = 0"
  by (simp add: handleOpen_def Let_def)

lemma reconnectAttempts_handleClose:
  "reconnectAttempts (handleClose code this) =
   (if code \<noteq> 1000 \<and> reconnectAttempts this < maxReconnectAttempts this
    then reconnectAttempts this + 1 else reconnectAttempts this)"
  by (simp add: handleClose_def attemptReconnect_def Let_def emit_def
      updateConnectionStatus_def)

lemma reconnectAttempts_retry_elapsed:
  "reconnectAttempts (retry_elapsed h i this) = reconnectAttempts this"
  by (simp add: retry_elapsed_def Let_def reconnectAttempts_connect)

lemma reconnectAttempts_handleMessage:
  "reconnectAttempts (handleMessage h data this) = reconnectAttempts this"
  by (cases "(h, data, this)" rule: handleMessage.cases)
     (simp_all add: parse_failed_def handleError_def handleSessionCreated_def
        handleConversationCreated_def updateSession_def Let_def sendMessage_frame
        split: option.splits sum.splits)

lemma reconnectAttempts_manager_step:
  "reconnectAttempts (manager_step this (h, event)) =
   (case event of
      Open \<Rightarrow> 0
    | Close code \<Rightarrow>
        if code \<noteq> 1000 \<and> reconnectAttempts this < maxReconnectAttempts this
        then reconnectAttempts this + 1 else reconnectAttempts this
    | _ \<Rightarrow> reconnectAttempts this)"
  by (cases event)
     (simp_all add: reconnectAttempts_connect reconnectAttempts_disconnect
        reconnectAttempts_handleOpen reconnectAttempts_handleClose handleError_def
        reconnectAttempts_handleMessage reconnectAttempts_retry_elapsed sendMessage_frame
        updateSession_def appendAudioBuffer_def commitAudioBuffer_def clearAudioBuffer_def
        createResponse_def cancelResponse_def split: option.splits)

lemma reconnectAttempts_never_lowered:
  assumes "list_all (\<lambda>step. \<not> is_open step) events"
  shows "reconnectAttempts this \<le> reconnectAttempts (manager_run this events)"
  using assms unfolding manager_run_def
proof (induction events arbitrary: this)
  case Nil
  show ?case by simp
next
  case (Cons step events)
  obtain h event where step: "step = (h, event)" by (cases step)
  with Cons.prems have "event \<noteq> Open" by (cases event) simp_all
  then have "reconnectAttempts this \<le> reconnectAttempts (manager_step this step)"
    unfolding step reconnectAttempts_manager_step by (cases event) simp_all
  also have "\<dots> \<le> reconnectAttempts (foldl manager_step (manager_step this step) events)"
    using Cons.prems by (intro Cons.IH) simp
  finally show ?case by simp
qed

text \<open>
  Claim C4. When a \<^verbatim>\<open>session.created\<close> message carrying a session object arrives
  while the manager is connected (and the socket accepts the send), handling it stores
  the session id and sends exactly one message, a \<^verbatim>\<open>session.update\<close> with the
  modalities audio and text, the voice \<^verbatim>\<open>alloy\<close>, \<^verbatim>\<open>pcm16\<close> as input and output
  format, and the turn detection \<^verbatim>\<open>semantic_vad\<close> with threshold 0.5, 300 ms of prefix
  padding and 700 ms of silence. The message is sent within the handling of the inbound
  message: whatever is handled afterwards only adds to the effects recorded by then.
\<close>

theorem session_created_sends_session_update:
  "isConnected this \<and> socket this \<noteq> None \<and> \<not> send_throws h \<longrightarrow>
     sessionId (handleMessage h (SessionCreated (Some session_id)) this) = session_id \<and>
     sent (effects (handleMessage h (SessionCreated (Some session_id)) this))
       = sent (effects this) @
         [\<lparr>payload = SessionUpdate
              \<lparr>modalities = [''audio'', ''text''], voice = ''alloy'',
               input_audio_format = ''pcm16'', output_audio_format = ''pcm16'',
               turn_detection =
                 \<lparr>vad_type = ''semantic_vad'', threshold = 1 / 2,
                  prefix_padding_ms = 300, silence_duration_ms = 700\<rparr>\<rparr>,
           event_id = Some (EventId (now h) (eventId this + 1))\<rparr>] \<and>
     prefix (effects (handleMessage h (SessionCreated (Some session_id)) this))
       (effects (manager_run (handleMessage h (SessionCreated (Some session_id)) this) later))"
proof (intro impI conjI)
  assume "isConnected this \<and> socket this \<noteq> None \<and> \<not> send_throws h"
  then have ready: "isConnected this" "socket this \<noteq> None" "\<not> send_throws h" by simp_all
  note handled = handleSessionCreated_sends [OF ready, of session_id]
  show "sessionId (handleMessage h (SessionCreated (Some session_id)) this) = session_id"
    unfolding handled by simp
  show "sent (effects (handleMessage h (SessionCreated (Some session_id)) this))
       = sent (effects this) @
         [\<lparr>payload = SessionUpdate
              \<lparr>modalities = [''audio'', ''text''], voice = ''alloy'',
               input_audio_format = ''pcm16'', output_audio_format = ''pcm16'',
               turn_detection =
                 \<lparr>vad_type = ''semantic_vad'', threshold = 1 / 2,
                  prefix_padding_ms = 300, silence_duration_ms = 700\<rparr>\<rparr>,
           event_id = Some (EventId (now h) (eventId this + 1))\<rparr>]"
    unfolding handled by (simp add: sent_append session_defaults_def)
  show "prefix (effects (handleMessage h (SessionCreated (Some session_id)) this))
       (effects (manager_run (handleMessage h (SessionCreated (Some session_id)) this) later))"
    by (intro prefix_manager_run prefix_order.order_refl)
qed

theorem session_created_sends_session_update_witness:
  "(let h = \<lparr>now = 7, send_throws = False, open_throws = False\<rparr>;
        this = (new_manager ''ws://localhost:8080/'' True)
                 \<lparr>socket := Some (WebSocket ''ws://localhost:8080/''), isConnected := True\<rparr>;
        created = handleMessage h (SessionCreated (Some (Some ''sess_1''))) this
    in (isConnected this \<and> socket this \<noteq> None \<and> \<not> send_throws h) \<and>
       sessionId created = Some ''sess_1'' \<and>
       sent (effects created)
         = [\<lparr>payload = SessionUpdate
              \<lparr>modalities = [''audio'', ''text''], voice = ''alloy'',
               input_audio_format = ''pcm16'', output_audio_format = ''pcm16'',
               turn_detection =
                 \<lparr>vad_type = ''semantic_vad'', threshold = 1 / 2,
                  prefix_padding_ms = 300, silence_duration_ms = 700\<rparr>\<rparr>,
             event_id = Some (EventId 7 1)\<rparr>] \<and>
       prefix (effects created)
         (effects (manager_run created [(h, Message ResponseAudioDone), (h, CreateResponse)])))"
proof -
  let ?h = "\<lparr>now = 7, send_throws = False, open_throws = False\<rparr>"
  let ?m = "(new_manager ''ws://localhost:8080/'' True)
                 \<lparr>socket := Some (WebSocket ''ws://localhost:8080/''), isConnected := True\<rparr>"
  have hyp: "isConnected ?m \<and> socket ?m \<noteq> None \<and> \<not> send_throws ?h" by simp
  have start: "sent (effects ?m) = []" "eventId ?m = 0" by (simp_all add: new_manager_def)
  note general = session_created_sends_session_update
    [of ?m ?h "Some ''sess_1''" "[(?h, Message ResponseAudioDone), (?h, CreateResponse)]",
      THEN mp, OF hyp]
  have a: "sessionId (handleMessage ?h (SessionCreated (Some (Some ''sess_1''))) ?m)
           = Some ''sess_1''"
    using general [THEN conjunct1] .
  have b: "sent (effects (handleMessage ?h (SessionCreated (Some (Some ''sess_1''))) ?m))
         = [\<lparr>payload = SessionUpdate
              \<lparr>modalities = [''audio'', ''text''], voice = ''alloy'',
               input_audio_format = ''pcm16'', output_audio_format = ''pcm16'',
               turn_detection =
                 \<lparr>vad_type = ''semantic_vad'', threshold = 1 / 2,
                  prefix_padding_ms = 300, silence_duration_ms = 700\<rparr>\<rparr>,
             event_id = Some (EventId 7 1)\<rparr>]"
    using general [THEN conjunct2, THEN conjunct1] start by simp
  note c = general [THEN conjunct2, THEN conjunct2]
  from hyp a b c show ?thesis
    unfolding Let_def by (elim conjE, intro conjI)
qed

text \<open>
  Claim C9. The open event sets the reconnect attempt counter to zero. No other event
  or call lowers it: \<^verbatim>\<open>disconnect()\<close>, \<^verbatim>\<open>connect()\<close> and the elapsing of a retry
  timer leave it as it is, and a close leaves it or increments it. So a counter above
  zero returns to zero exactly at an open event, and over any sequence of events
  without an open it never decreases.
\<close>

theorem reconnectAttempts_reset_only_on_open:
  "reconnectAttempts (manager_step this (h, Open)) = 0 \<and>
   (event \<noteq> Open \<longrightarrow>
      reconnectAttempts this \<le> reconnectAttempts (manager_step this (h, event))) \<and>
   (0 < reconnectAttempts this \<longrightarrow>
      (reconnectAttempts (manager_step this (h, event)) = 0) = (event = Open)) \<and>
   reconnectAttempts (manager_step this (h, Disconnect)) = reconnectAttempts this \<and>
   reconnectAttempts (manager_step this (h, Connect)) = reconnectAttempts this \<and>
   reconnectAttempts (manager_step this (h, RetryElapsed i)) = reconnectAttempts this \<and>
   reconnectAttempts (manager_step this (h, Close code))
     = (if code \<noteq> 1000 \<and> reconnectAttempts this < maxReconnectAttempts this
        then reconnectAttempts this + 1 else reconnectAttempts this) \<and>
   (list_all (\<lambda>step. \<not> is_open step) events \<longrightarrow>
      reconnectAttempts this \<le> reconnectAttempts (manager_run this events))"
proof (intro conjI impI)
  show "reconnectAttempts (manager_step this (h, Open)) = 0"
    unfolding reconnectAttempts_manager_step by simp
  show "reconnectAttempts (manager_step this (h, Disconnect)) = reconnectAttempts this"
    unfolding reconnectAttempts_manager_step by simp
  show "reconnectAttempts (manager_step this (h, Connect)) = reconnectAttempts this"
    unfolding reconnectAttempts_manager_step by simp
  show "reconnectAttempts (manager_step this (h, RetryElapsed i)) = reconnectAttempts this"
    unfolding reconnectAttempts_manager_step by simp
  show "reconnectAttempts (manager_step this (h, Close code))
     = (if code \<noteq> 1000 \<and> reconnectAttempts this < maxReconnectAttempts this
        then reconnectAttempts this + 1 else reconnectAttempts this)"
    unfolding reconnectAttempts_manager_step by simp
next
  assume "event \<noteq> Open"
  then show "reconnectAttempts this \<le> reconnectAttempts (manager_step this (h, event))"
    unfolding reconnectAttempts_manager_step by (cases event) simp_all
next
  assume "0 < reconnectAttempts this"
  then show "(reconnectAttempts (manager_step this (h, event)) = 0) = (event = Open)"
    unfolding reconnectAttempts_manager_step by (cases event) simp_all
next
  assume "list_all (\<lambda>step. \<not> is_open step) events"
  then show "reconnectAttempts this \<le> reconnectAttempts (manager_run this events)"
    by (rule reconnectAttempts_never_lowered)
qed

theorem reconnectAttempts_reset_only_on_open_witness:
  "(let h = \<lparr>now = 7, send_throws = False, open_throws = False\<rparr>;
        this = (new_manager ''ws://localhost:8080/'' True)
                 \<lparr>socket := Some (WebSocket ''ws://localhost:8080/''), reconnectAttempts := 3\<rparr>;
        events = [(h, Disconnect), (h, Close 1006), (h, RetryElapsed 0), (h, Close 1000)]
    in Disconnect \<noteq> Open \<and> 0 < reconnectAttempts this \<and>
       list_all (\<lambda>step. \<not> is_open step) events \<and>
       reconnectAttempts this \<le> reconnectAttempts (manager_step this (h, Disconnect)) \<and>
       reconnectAttempts (manager_step this (h, Disconnect)) \<noteq> 0 \<and>
       reconnectAttempts this \<le> reconnectAttempts (manager_run this events) \<and>
       reconnectAttempts (manager_run this events) = 4 \<and>
       reconnectAttempts (manager_step (manager_run this events) (h, Open)) = 0)"
proof -
  let ?h = "\<lparr>now = 7, send_throws = False, open_throws = False\<rparr>"
  let ?m = "(new_manager ''ws://localhost:8080/'' True)
                 \<lparr>socket := Some (WebSocket ''ws://localhost:8080/''), reconnectAttempts := 3\<rparr>"
  let ?events = "[(?h, Disconnect), (?h, Close 1006), (?h, RetryElapsed 0), (?h, Close 1000)]"
  have other: "Disconnect \<noteq> Open" by simp
  have positive: "0 < reconnectAttempts ?m" by simp
  have no_open: "list_all (\<lambda>step. \<not> is_open step) ?events" by simp
  note general = reconnectAttempts_reset_only_on_open [of ?m ?h Disconnect 0 1006 ?events]
  note a = general [THEN conjunct2, THEN conjunct1, THEN mp, OF other]
  have b: "reconnectAttempts (manager_step ?m (?h, Disconnect)) \<noteq> 0"
    using general [THEN conjunct2, THEN conjunct2, THEN conjunct1, THEN mp, OF positive]
    by simp
  note c = general [THEN conjunct2, THEN conjunct2, THEN conjunct2, THEN conjunct2,
      THEN conjunct2, THEN conjunct2, THEN conjunct2, THEN mp, OF no_open]
  have d: "reconnectAttempts (manager_run ?m ?events) = 4"
    by (simp add: manager_run_def new_manager_def disconnect_def handleClose_def
        attemptReconnect_def retry_elapsed_def connect_def remove_nth_def Let_def emit_def
        updateConnectionStatus_def)
  have e: "reconnectAttempts (manager_step (manager_run ?m ?events) (?h, Open)) = 0"
    using reconnectAttempts_reset_only_on_open
      [of "manager_run ?m ?events" ?h Disconnect 0 1006 ?events, THEN conjunct1] .
  from other positive no_open a b c d e show ?thesis
    unfolding Let_def by (intro conjI)
qed

subsection \<open>The reconnection policy\<close>

lemma handleClose_retries:
  assumes "code \<noteq> 1000" "reconnectAttempts this < maxReconnectAttempts this"
  shows "reconnectAttempts (handleClose code this) = reconnectAttempts this + 1"
    and "timers (handleClose code this)
         = timers this @ [reconnectDelay this * (3 / 2) powi reconnectAttempts this]"
    and "timeouts (effects (handleClose code this))
         = timeouts (effects this) @ [reconnectDelay this * (3 / 2) powi reconnectAttempts this]"
    and "disconnect_calls (effects (handleClose code this)) = disconnect_calls (effects this)"
  using assms
  by (simp_all add: handleClose_def attemptReconnect_def Let_def emit_def
      updateConnectionStatus_def timeouts_append disconnect_calls_append)

lemma handleClose_gives_up:
  assumes "\<not> (code \<noteq> 1000 \<and> reconnectAttempts this < maxReconnectAttempts this)"
  shows "reconnectAttempts (handleClose code this) = reconnectAttempts this"
    and "timers (handleClose code this) = timers this"
    and "timeouts (effects (handleClose code this)) = timeouts (effects this)"
    and "disconnect_calls (effects (handleClose code this))
         = disconnect_calls (effects this) + (if onDisconnect this then 1 else 0)"
  using assms
  by (auto simp add: handleClose_def Let_def emit_def updateConnectionStatus_def
      timeouts_append disconnect_calls_append)

text \<open>
  Claim C2. On a close with a code other than 1000 and the attempt counter below the
  ceiling, the counter is incremented and exactly one timer is set, with the delay
  \<open>reconnectDelay * 1.5 ^ (attempt - 1)\<close> for the incremented counter \<open>attempt\<close>,
  and \<^verbatim>\<open>onDisconnect\<close> is not called; with the defaults the third drop sets 4500 ms.
  When the timer elapses, \<^verbatim>\<open>connect()\<close> is called if the manager is neither connected
  nor connecting, and nothing is done otherwise. On any other close (code 1000, or the
  counter at the ceiling of 5) no timer is set, the counter is left alone, and
  \<^verbatim>\<open>onDisconnect\<close> is called once if a listener is assigned.
\<close>

theorem handleClose_backoff_and_ceiling:
  "(code \<noteq> 1000 \<and> reconnectAttempts this < maxReconnectAttempts this \<longrightarrow>
      reconnectAttempts (handleClose code this) = reconnectAttempts this + 1 \<and>
      timers (handleClose code this)
        = timers this
          @ [reconnectDelay this * (3 / 2) powi (reconnectAttempts (handleClose code this) - 1)] \<and>
      timeouts (effects (handleClose code this))
        = timeouts (effects this)
          @ [reconnectDelay this * (3 / 2) powi (reconnectAttempts (handleClose code this) - 1)] \<and>
      disconnect_calls (effects (handleClose code this)) = disconnect_calls (effects this) \<and>
      (reconnectDelay this = 2000 \<and> reconnectAttempts this = 2 \<longrightarrow>
         timers (handleClose code this) = timers this @ [4500])) \<and>
   (\<not> (code \<noteq> 1000 \<and> reconnectAttempts this < maxReconnectAttempts this) \<longrightarrow>
      reconnectAttempts (handleClose code this) = reconnectAttempts this \<and>
      timers (handleClose code this) = timers this \<and>
      timeouts (effects (handleClose code this)) = timeouts (effects this) \<and>
      disconnect_calls (effects (handleClose code this))
        = disconnect_calls (effects this) + (if onDisconnect this then 1 else 0)) \<and>
   (i < length (timers this) \<longrightarrow>
      retry_elapsed h i this
        = (if \<not> isConnected this \<and> \<not> isConnecting this
           then connect h (this\<lparr>timers := remove_nth i (timers this)\<rparr>)
           else this\<lparr>timers := remove_nth i (timers this)\<rparr>)) \<and>
   maxReconnectAttempts (new_manager url status_element) = 5 \<and>
   reconnectDelay (new_manager url status_element) = 2000 \<and>
   reconnectAttempts (new_manager url status_element) = 0"
proof (intro conjI impI)
  assume "code \<noteq> 1000 \<and> reconnectAttempts this < maxReconnectAttempts this"
  then have drop: "code \<noteq> 1000" "reconnectAttempts this < maxReconnectAttempts this"
    by simp_all
  note retries = handleClose_retries [OF drop]
  show "reconnectAttempts (handleClose code this) = reconnectAttempts this + 1"
    by (rule retries(1))
  show "timers (handleClose code this)
        = timers this
          @ [reconnectDelay this * (3 / 2) powi (reconnectAttempts (handleClose code this) - 1)]"
    by (simp add: retries)
  show "timeouts (effects (handleClose code this))
        = timeouts (effects this)
          @ [reconnectDelay this * (3 / 2) powi (reconnectAttempts (handleClose code this) - 1)]"
    by (simp add: retries)
  show "disconnect_calls (effects (handleClose code this)) = disconnect_calls (effects this)"
    by (rule retries(4))
  assume "reconnectDelay this = 2000 \<and> reconnectAttempts this = 2"
  then show "timers (handleClose code this) = timers this @ [4500]"
    by (simp add: retries power_int_def power2_eq_square)
next
  assume stop: "\<not> (code \<noteq> 1000 \<and> reconnectAttempts this < maxReconnectAttempts this)"
  note gives_up = handleClose_gives_up [OF stop]
  show "reconnectAttempts (handleClose code this) = reconnectAttempts this"
    by (rule gives_up(1))
  show "timers (handleClose code this) = timers this" by (rule gives_up(2))
  show "timeouts (effects (handleClose code this)) = timeouts (effects this)"
    by (rule gives_up(3))
  show "disconnect_calls (effects (handleClose code this))
        = disconnect_calls (effects this) + (if onDisconnect this then 1 else 0)"
    by (rule gives_up(4))
next
  assume "i < length (timers this)"
  then show "retry_elapsed h i this
        = (if \<not> isConnected this \<and> \<not> isConnecting this
           then connect h (this\<lparr>timers := remove_nth i (timers this)\<rparr>)
           else this\<lparr>timers := remove_nth i (timers this)\<rparr>)"
    by (simp add: retry_elapsed_def)
next
  show "maxReconnectAttempts (new_manager url status_element) = 5"
    and "reconnectDelay (new_manager url status_element) = 2000"
    and "reconnectAttempts (new_manager url status_element) = 0"
    by (simp_all add: new_manager_def)
qed

text \<open>One failed attempt: the channel drops and the retry, once its delay has elapsed,
  opens a new socket.\<close>

lemma drop_then_retry:
  assumes "\<not> isConnected this" "timers this = []"
    "reconnectAttempts this < maxReconnectAttempts this" "\<not> statusElement this"
    "\<not> open_throws h" "code \<noteq> 1000"
  shows "retry_elapsed h 0 (handleClose code this) =
         this\<lparr>socket := Some (WebSocket (serverUrl this)), isConnecting := True,
              reconnectAttempts := reconnectAttempts this + 1,
              effects := effects this @
                [Logged LogInfo,
                 TimeoutSet (reconnectDelay this * (3 / 2) powi reconnectAttempts this),
                 Logged LogInfo, SocketOpened (serverUrl this)]\<rparr>"
  using assms
  by (simp add: handleClose_def attemptReconnect_def retry_elapsed_def connect_def
      remove_nth_def Let_def emit_def updateConnectionStatus_def)

theorem handleClose_backoff_and_ceiling_witness:
  "(let h = \<lparr>now = 7, send_throws = False, open_throws = False\<rparr>;
        fresh = new_manager ''ws://localhost:8080/'' False;
        third = fresh\<lparr>reconnectAttempts := 2\<rparr>;
        last = fresh\<lparr>reconnectAttempts := 5, onDisconnect := True\<rparr>;
        opened = fresh\<lparr>isConnected := True, timers := [4500]\<rparr>
    in (1006 \<noteq> (1000 :: int) \<and> reconnectAttempts third < maxReconnectAttempts third) \<and>
       (reconnectDelay third = 2000 \<and> reconnectAttempts third = 2) \<and>
       reconnectAttempts (handleClose 1006 third) = 3 \<and>
       timers (handleClose 1006 third) = [4500] \<and>
       disconnect_calls (effects (handleClose 1006 third)) = 0 \<and>
       \<not> (1006 \<noteq> (1000 :: int) \<and> reconnectAttempts last < maxReconnectAttempts last) \<and>
       timers (handleClose 1006 last) = [] \<and>
       reconnectAttempts (handleClose 1006 last) = 5 \<and>
       disconnect_calls (effects (handleClose 1006 last)) = 1 \<and>
       0 < length (timers opened) \<and>
       retry_elapsed h 0 opened = opened\<lparr>timers := []\<rparr>)"
proof -
  let ?h = "\<lparr>now = 7, send_throws = False, open_throws = False\<rparr>"
  let ?fresh = "new_manager ''ws://localhost:8080/'' False"
  let ?third = "?fresh\<lparr>reconnectAttempts := 2\<rparr>"
  let ?last = "?fresh\<lparr>reconnectAttempts := 5, onDisconnect := True\<rparr>"
  let ?opened = "?fresh\<lparr>isConnected := True, timers := [4500]\<rparr>"
  have drop: "1006 \<noteq> (1000 :: int) \<and> reconnectAttempts ?third < maxReconnectAttempts ?third"
    by (simp add: new_manager_def)
  have defaults: "reconnectDelay ?third = 2000 \<and> reconnectAttempts ?third = 2"
    by (simp add: new_manager_def)
  have stop: "\<not> (1006 \<noteq> (1000 :: int) \<and> reconnectAttempts ?last < maxReconnectAttempts ?last)"
    by (simp add: new_manager_def)
  have pending: "0 < length (timers ?opened)" by simp
  note retry = handleClose_backoff_and_ceiling [of 1006 ?third 0 ?h, THEN conjunct1, THEN mp,
      OF drop]
  note give_up = handleClose_backoff_and_ceiling [of 1006 ?last 0 ?h, THEN conjunct2,
      THEN conjunct1, THEN mp, OF stop]
  note elapsed = handleClose_backoff_and_ceiling [of 1006 ?opened 0 ?h, THEN conjunct2,
      THEN conjunct2, THEN conjunct1, THEN mp, OF pending]
  have a1: "reconnectAttempts (handleClose 1006 ?third) = 3"
    using retry [THEN conjunct1] by simp
  have a2: "timers (handleClose 1006 ?third) = [4500]"
    using retry [THEN conjunct2, THEN conjunct2, THEN conjunct2, THEN conjunct2, THEN mp,
        OF defaults]
    by (simp add: new_manager_def)
  have a3: "disconnect_calls (effects (handleClose 1006 ?third)) = 0"
    using retry [THEN conjunct2, THEN conjunct2, THEN conjunct2, THEN conjunct1]
    by (simp add: new_manager_def)
  have b1: "timers (handleClose 1006 ?last) = []"
    using give_up [THEN conjunct2, THEN conjunct1] by (simp add: new_manager_def)
  have b2: "reconnectAttempts (handleClose 1006 ?last) = 5"
    using give_up [THEN conjunct1] by simp
  have b3: "disconnect_calls (effects (handleClose 1006 ?last)) = 1"
    using give_up [THEN conjunct2, THEN conjunct2, THEN conjunct2]
    by (simp add: new_manager_def)
  have c: "retry_elapsed ?h 0 ?opened = ?opened\<lparr>timers := []\<rparr>"
    using elapsed by (simp add: remove_nth_def)
  from drop defaults a1 a2 a3 stop b1 b2 b3 pending c show ?thesis
    unfolding Let_def by (elim conjE, intro conjI)
qed

text \<open>
  The run of the spec's test: after \<^verbatim>\<open>connect()\<close>, the channel drops five times, each
  retry opening a socket that drops again. The five timers are set with 2000, 3000,
  4500, 6750 and 10125 ms; the sixth drop sets none and \<^verbatim>\<open>onDisconnect\<close> is called.
\<close>

lemma five_retries_then_disconnect:
  "(let h = \<lparr>now = 7, send_throws = False, open_throws = False\<rparr>;
        this = (new_manager ''ws://localhost:8080/'' False)\<lparr>onDisconnect := True\<rparr>;
        drop = [(h, Close 1006), (h, RetryElapsed 0)];
        final = manager_run this
                  ((h, Connect) # drop @ drop @ drop @ drop @ drop @ [(h, Close 1006)])
    in timeouts (effects final) = [2000, 3000, 4500, 6750, 10125] \<and>
       disconnect_calls (effects final) = 1 \<and>
       reconnectAttempts final = 5 \<and> timers final = [])"
proof -
  let ?h = "\<lparr>now = 7, send_throws = False, open_throws = False\<rparr>"
  let ?m = "(new_manager ''ws://localhost:8080/'' False)\<lparr>onDisconnect := True\<rparr>"
  let ?drop = "[(?h, Close 1006), (?h, RetryElapsed 0)]"
  define s0 where "s0 = manager_step ?m (?h, Connect)"
  define s5 where "s5 = foldl manager_step s0 (?drop @ ?drop @ ?drop @ ?drop @ ?drop)"
  have s0: "s0 =
     ?m\<lparr>socket := Some (WebSocket ''ws://localhost:8080/''), isConnecting := True,
        effects := [Logged LogInfo, SocketOpened ''ws://localhost:8080/'']\<rparr>"
    by (simp add: s0_def new_manager_def connect_def Let_def emit_def
        updateConnectionStatus_def)
  have s5: "reconnectAttempts s5 = 5" "maxReconnectAttempts s5 = 5" "onDisconnect s5"
    "timers s5 = []" "timeouts (effects s5) = [2000, 3000, 4500, 6750, 10125]"
    "disconnect_calls (effects s5) = 0"
    unfolding s5_def s0
    by (simp_all add: drop_then_retry new_manager_def power_int_def power_divide)
  have stop: "\<not> (1006 \<noteq> (1000 :: int) \<and> reconnectAttempts s5 < maxReconnectAttempts s5)"
    by (simp add: s5)
  have run: "manager_run ?m
               ((?h, Connect) # ?drop @ ?drop @ ?drop @ ?drop @ ?drop @ [(?h, Close 1006)])
             = handleClose 1006 s5"
    by (simp add: manager_run_def s5_def s0_def)
  show ?thesis
    unfolding Let_def run by (simp add: handleClose_gives_up [OF stop] s5)
qed

subsection \<open>The pending counter is never negative\<close>

lemma pendingAudioBuffers_emit [simp]:
  "pendingAudioBuffers (emit e this) = pendingAudioBuffers this"
  by (simp add: emit_def)

lemma pendingAudioBuffers_updateConnectionStatus [simp]:
  "pendingAudioBuffers (updateConnectionStatus status this) = pendingAudioBuffers this"
  by (simp add: updateConnectionStatus_def)

lemma pendingAudioBuffers_connect:
  "pendingAudioBuffers (connect h this) = pendingAudioBuffers this"
  by (simp add: connect_def Let_def)

lemma pendingAudioBuffers_handleClose:
  "pendingAudioBuffers (handleClose code this) = pendingAudioBuffers this"
  by (simp add: handleClose_def attemptReconnect_def Let_def)

lemma pendingAudioBuffers_retry_elapsed:
  "pendingAudioBuffers (retry_elapsed h i this) = pendingAudioBuffers this"
  by (simp add: retry_elapsed_def Let_def pendingAudioBuffers_connect)

lemma pendingAudioBuffers_handleMessage:
  "pendingAudioBuffers (handleMessage h data this) = pendingAudioBuffers this"
  by (cases "(h, data, this)" rule: handleMessage.cases)
     (simp_all add: parse_failed_def handleError_def handleSessionCreated_def
        handleConversationCreated_def updateSession_def Let_def sendMessage_frame
        split: option.splits sum.splits)

lemma pendingAudioBuffers_step:
  assumes "0 \<le> pendingAudioBuffers this"
  shows "0 \<le> pendingAudioBuffers (manager_step this step)"
proof -
  obtain h event where step: "step = (h, event)" by (cases step)
  show ?thesis
    unfolding step using assms
    by (cases event)
       (simp_all add: pendingAudioBuffers_connect disconnect_def handleOpen_def
          pendingAudioBuffers_handleClose handleError_def pendingAudioBuffers_handleMessage
          pendingAudioBuffers_retry_elapsed sendMessage_frame updateSession_def
          appendAudioBuffer_def commitAudioBuffer_def clearAudioBuffer_def
          createResponse_def cancelResponse_def Let_def split: option.splits)
qed

lemma pendingAudioBuffers_never_negative:
  "0 \<le> pendingAudioBuffers (manager_run (new_manager url status_element) events)"
proof -
  have "0 \<le> pendingAudioBuffers this \<Longrightarrow> 0 \<le> pendingAudioBuffers (manager_run this events)"
    for this
    unfolding manager_run_def
    by (induction events arbitrary: this) (simp_all add: pendingAudioBuffers_step)
  then show ?thesis by (simp add: new_manager_def)
qed

end
